theory Spec2Isabelle
  imports Complex_Main "HOL-Library.Multiset"
begin

section \<open>Vose's alias method: the Sampler of sampler.pyx\<close>

text \<open>
  The development embeds \<^verbatim>\<open>src/vose/sampler.pyx\<close> (class \<^verbatim>\<open>Sampler\<close>, whose fields are
  declared in the accompanying \<^verbatim>\<open>.pxd\<close>) as HOL functions.

  Conventions of the embedding.
  \<^item> \<^verbatim>\<open>np.float_t\<close> and \<^verbatim>\<open>float\<close> values are real numbers: arithmetic is exact. The
    statements below are therefore statements about the algorithm under infinite
    precision; rounding is not modelled.
  \<^item> C \<^verbatim>\<open>int\<close> values that hold sizes and indices (\<^verbatim>\<open>n\<close>, \<^verbatim>\<open>i\<close>, \<^verbatim>\<open>less\<close>, \<^verbatim>\<open>more\<close>, \<^verbatim>\<open>col\<close>,
    the entries of \<^verbatim>\<open>alias\<close>) are natural numbers; they stay below \<open>2^31\<close> for every
    array that fits a C \<^verbatim>\<open>int\<close> length. The one multiplication that can wrap, the product
    in \<^verbatim>\<open>fair_die\<close>, is reduced modulo \<open>2 ^ result_bits\<close> explicitly.
  \<^item> Buffers passed by reference live in a heap (a list of buffers, an address is a
    position in it), so that in-place mutation of the caller's array is visible.
  \<^item> Errors are values: an outcome is \<open>error + result\<close>, \<open>Inl\<close> being the failure.
  \<^item> The file is compiled with \<^verbatim>\<open>boundscheck=False\<close>: an index outside a typed memoryview
    raises nothing and reads the memory behind the buffer. A value buffer given by the
    caller therefore comes with the memory that lies behind it (\<open>beyond\<close>), and a read
    past its end returns what is there.
\<close>

subsection \<open>The random engine\<close>

text \<open>
  \<^verbatim>\<open>sampler.pyx\<close> cimports the engine \<^verbatim>\<open>minstd_rand\<close> and the entropy source
  \<^verbatim>\<open>random_device\<close> from \<^verbatim>\<open>random_wrapper\<close>, a declaration of the two C++ standard
  library classes that is not among the sources. The definitions of this subsection
  stand for it.
\<close>

text \<open>
  Modelled from the spec: the state of the engine \<^verbatim>\<open>minstd_rand\<close> (section 3: an internal
  seed state, mutated by every draw). The width of the engine's unsigned result type
  (\<^verbatim>\<open>uint_fast32_t\<close>: 32 bits or more, fixed by the platform) is carried with it as
  \<open>result_bits\<close>.
\<close>

record minstd_rand =
  result_bits :: nat
  lcg_state :: nat

text \<open>
  Modelled from the spec: the constants of the engine, which section 9 names as the
  31-bit linear-congruential "minimal standard" generator: modulus \<open>2^31 - 1\<close> and, for
  \<^verbatim>\<open>minstd_rand\<close>, multiplier \<open>48271\<close>.
\<close>

definition minstd_modulus :: nat where
  "minstd_modulus = 2147483647"

definition minstd_multiplier :: nat where
  "minstd_multiplier = 48271"

text \<open>
  Modelled from the spec: \<^verbatim>\<open>minstd_rand(seed)\<close>, the engine seeded deterministically from
  an integer (section 4.2). The state is the seed modulo the modulus, and \<open>1\<close> where that
  is \<open>0\<close>.
\<close>

definition minstd_rand_seed :: "nat \<Rightarrow> nat \<Rightarrow> minstd_rand" where
  "minstd_rand_seed bits sd =
     \<lparr>result_bits = bits,
      lcg_state = (if sd mod minstd_modulus = 0 then 1 else sd mod minstd_modulus)\<rparr>"

text \<open>
  Modelled from the spec: \<^verbatim>\<open>generator.max()\<close>, the fixed, engine-defined \<open>MAX\<close> of section
  4.2; for this engine the modulus less one.
\<close>

definition minstd_max :: "minstd_rand \<Rightarrow> nat" where
  "minstd_max g = minstd_modulus - 1"

text \<open>
  Modelled from the spec: \<^verbatim>\<open>generator()\<close>, one draw (\<open>uniform32\<close> in section 4.2). The
  state is multiplied by the multiplier modulo the modulus; the new state is the draw.
  From a state in \<open>1 .. 2^31 - 2\<close> the draw is again in \<open>1 .. 2^31 - 2\<close>.
\<close>

definition minstd_call :: "minstd_rand \<Rightarrow> nat \<times> minstd_rand" where
  "minstd_call g =
     (let x = (minstd_multiplier * lcg_state g) mod minstd_modulus
      in (x, g\<lparr>lcg_state := x\<rparr>))"

subsection \<open>Errors, buffers and the Sampler object\<close>

text \<open>
  \<open>InvalidInput\<close> and \<open>OutOfRange\<close> are the two errors the specification names. No
  statement of \<^verbatim>\<open>sampler.pyx\<close> raises them; they are part of the type so that the
  specification's sentences about them can be stated. \<open>IndexError\<close>, \<open>ValueError\<close> and
  \<open>OverflowError\<close> are raised by the runtime: indexing a Python object out of range;
  \<^verbatim>\<open>np.zeros\<close> with a negative length and the \<^verbatim>\<open>copy()\<close> of a memoryview without
  elements; conversion of a Python integer to a C \<^verbatim>\<open>int\<close>. \<open>UndefinedRead\<close> is not an
  exception: it marks a draw that read one of the Sampler's own tables outside its
  bounds (see \<open>unchecked_read\<close>).
\<close>

datatype error =
  InvalidInput | OutOfRange | UndefinedRead | IndexError | ValueError | OverflowError

type_synonym addr = nat
type_synonym heap = "real list list"

text \<open>
  The fields of the class, as the \<^verbatim>\<open>.pxd\<close> declares them. The field \<^verbatim>\<open>alias\<close> is named
  \<open>alias_tab\<close> here, \<open>alias\<close> being a keyword of Isabelle.
\<close>

record Sampler =
  n :: nat
  generator :: minstd_rand
  maxi :: nat
  alias_tab :: "nat list"
  proba :: "real list"

text \<open>
  A value buffer as \<^verbatim>\<open>sample\<close> receives it: its elements, and what the memory behind
  them holds. \<open>beyond b i\<close> is what an unchecked read at an index \<open>i\<close> past the end finds
  (for a slice of a larger array, the elements of that array).
\<close>

record float_view =
  items :: "real list"
  beyond :: "nat \<Rightarrow> real"

text \<open>
  The read \<^verbatim>\<open>values[i]\<close> of the value buffer in \<^verbatim>\<open>sample_k_from\<close>, unchecked: past the end
  it raises nothing and returns what lies there.
\<close>

definition view_read :: "float_view \<Rightarrow> nat \<Rightarrow> real" where
  "view_read b i = (if i < length (items b) then items b ! i else beyond b i)"

text \<open>
  The reads \<^verbatim>\<open>self.proba[col]\<close> and \<^verbatim>\<open>self.alias[col]\<close> of the Sampler's own tables in
  \<^verbatim>\<open>sample_1\<close>, unchecked as well. The column is the die's, so it leaves the tables only
  for a Sampler with \<open>n = 0\<close> (\<open>fair_die_less\<close> below). The object holds nothing that says
  what lies behind its tables, and C gives such a read no meaning: the model does not
  invent a value and ends the draw with the outcome \<open>UndefinedRead\<close>. The code raises
  nothing there. No theorem below is about a draw that ends so.
\<close>

definition unchecked_read :: "'a list \<Rightarrow> nat \<Rightarrow> error + 'a" where
  "unchecked_read xs i = (if i < length xs then Inr (xs ! i) else Inl UndefinedRead)"

subsection \<open>Table construction (\<^verbatim>\<open>Sampler.__init__\<close>)\<close>

text \<open>
  The local variables of the constructor that the loops update (\<open>l_proba\<close> and \<open>l_alias\<close>
  are its locals \<^verbatim>\<open>proba\<close> and \<^verbatim>\<open>alias\<close>). The two worklists are \<^verbatim>\<open>deque[int]\<close>: the head of
  the list is the front, \<^verbatim>\<open>push_front\<close> is \<open>#\<close>, \<^verbatim>\<open>back()\<close> is \<open>last\<close> and \<^verbatim>\<open>pop_back()\<close>
  is \<open>butlast\<close>. Every index the loops use is below \<open>n\<close> (\<open>pair_step_wl_inv\<close> below), so
  no array access of the constructor is out of range.
\<close>

record locals =
  weights :: "real list"
  l_proba :: "real list"
  l_alias :: "nat list"
  small :: "nat list"
  large :: "nat list"

text \<open>Lines 58-64, the body of \<^verbatim>\<open>for i in range(n)\<close>.\<close>

definition classify :: "real list \<Rightarrow> real \<Rightarrow> nat \<Rightarrow> nat list \<times> nat list \<Rightarrow> nat list \<times> nat list" where
  "classify w avg i wl =
     (case wl of (sm, lg) \<Rightarrow> if w ! i \<ge> avg then (sm, i # lg) else (i # sm, lg))"

definition populate :: "real list \<Rightarrow> real \<Rightarrow> nat \<Rightarrow> nat list \<times> nat list" where
  "populate w avg m = fold (classify w avg) [0..<m] ([], [])"

text \<open>Lines 75-91, the body of the pairing loop.\<close>

definition pair_step :: "nat \<Rightarrow> real \<Rightarrow> locals \<Rightarrow> locals" where
  "pair_step m avg st =
     (let less = last (small st); small1 = butlast (small st);
          more = last (large st); large1 = butlast (large st);
          proba1 = (l_proba st)[less := weights st ! less * real m];
          alias1 = (l_alias st)[less := more];
          weights1 = (weights st)[more := weights st ! more + weights st ! less - avg]
      in if weights1 ! more \<ge> avg
         then \<lparr>weights = weights1, l_proba = proba1, l_alias = alias1,
               small = small1, large = more # large1\<rparr>
         else \<lparr>weights = weights1, l_proba = proba1, l_alias = alias1,
               small = more # small1, large = large1\<rparr>)"

lemma pair_step_measure:
  "small st \<noteq> [] \<Longrightarrow> large st \<noteq> [] \<Longrightarrow>
     length (small (pair_step m avg st)) + length (large (pair_step m avg st))
       < length (small st) + length (large st)"
  by (cases "small st" rule: rev_cases; cases "large st" rule: rev_cases)
     (simp_all add: pair_step_def Let_def)

text \<open>Line 72, \<^verbatim>\<open>while not small.empty() and not large.empty()\<close>.\<close>

function pair_loop :: "nat \<Rightarrow> real \<Rightarrow> locals \<Rightarrow> locals" where
  "pair_loop m avg st =
     (if small st \<noteq> [] \<and> large st \<noteq> [] then pair_loop m avg (pair_step m avg st) else st)"
  by pat_completeness auto
termination
  by (relation "measure (\<lambda>(m, avg, st). length (small st) + length (large st))")
     (simp_all add: pair_step_measure)

declare pair_loop.simps [simp del]

text \<open>
  Lines 96-101: a worklist is emptied from the back and every index popped gets
  probability \<open>1\<close>.
\<close>

definition drain :: "nat list \<Rightarrow> real list \<Rightarrow> real list" where
  "drain wl pr = fold (\<lambda>idx p. p[idx := 1]) (rev wl) pr"

text \<open>
  Lines 45-101 on the contents \<open>w\<close> of the working buffer. For an empty buffer the C
  division \<^verbatim>\<open>1. / n\<close> (with \<^verbatim>\<open>cdivision=True\<close>) is infinite and here \<open>0\<close>; no loop runs in
  that case and the value is never read.
\<close>

definition build_tables :: "real list \<Rightarrow> locals" where
  "build_tables w =
     (let m = length w;
          alias0 = replicate m (0::nat);
          proba0 = replicate m (0::real);
          avg = 1 / real m;
          wl = populate w avg m;
          st = pair_loop m avg
                 \<lparr>weights = w, l_proba = proba0, l_alias = alias0, small = fst wl, large = snd wl\<rparr>;
          proba1 = drain (small st) (l_proba st);
          proba2 = drain (large st) proba1
      in st\<lparr>l_proba := proba2, small := [], large := []\<rparr>)"

text \<open>
  The constructor. \<open>bits\<close> is the width of the engine's result type on the platform and
  \<open>r\<close> the value the \<^verbatim>\<open>random_device\<close> returns; \<open>h\<close> is the heap and \<open>weights_ref\<close> the
  address of the caller's buffer in it.

  The arguments are those the signature lets through: \<^verbatim>\<open>weights\<close> is a writable buffer of
  \<^verbatim>\<open>np.float_t\<close> (\<^verbatim>\<open>None\<close>, a read-only array or another element type is refused when
  the argument is bound to \<^verbatim>\<open>np.float_t [:] weights not None\<close>), and a seed is a value
  of the C type of the engine's seed (a Python integer outside it is refused by the
  conversion on line 38).

  The body has no \<^verbatim>\<open>raise\<close>, and one call that raises: on line 43, \<^verbatim>\<open>weights.copy()\<close> of
  a buffer without elements is a \<open>ValueError\<close> (a memoryview copy cannot have an axis
  of length \<open>0\<close>). It runs only when \<^verbatim>\<open>copy\<close> is true, after the engine is made and
  before \<open>n\<close> is read. Otherwise \<^verbatim>\<open>weights.copy()\<close> allocates a new buffer at the end of
  the heap. The working buffer is written back when the loops are done: they are the
  only code that runs during construction and they touch no other buffer.
\<close>

definition Sampler_init ::
  "nat \<Rightarrow> nat \<Rightarrow> heap \<Rightarrow> addr \<Rightarrow> bool \<Rightarrow> nat option \<Rightarrow> error + (heap \<times> Sampler)" where
  "Sampler_init bits r h weights_ref copy seed =
     (let g = (case seed of None \<Rightarrow> minstd_rand_seed bits r
                          | Some sd \<Rightarrow> minstd_rand_seed bits sd);
          mx = minstd_max g
      in if copy \<and> h ! weights_ref = [] then Inl ValueError
         else
           (let (h1, wref) =
                  (if copy then (h @ [h ! weights_ref], length h) else (h, weights_ref));
                t = build_tables (h1 ! wref)
            in Inr (h1[wref := weights t],
                    \<lparr>n = length (h1 ! wref), generator = g, maxi = mx,
                     alias_tab = l_alias t, proba = l_proba t\<rparr>)))"

subsection \<open>Sampling\<close>

text \<open>
  The two primitives as functions of the engine's draw \<open>d\<close>. In \<^verbatim>\<open>coin_toss\<close> the
  comparison \<^verbatim>\<open>self.generator() < self.maxi * p\<close> is made on real numbers. The code makes
  it in single precision (\<open>p\<close> is a C \<^verbatim>\<open>float\<close>, and the draw and \<^verbatim>\<open>maxi\<close> are converted to
  it), so its coin can differ from \<open>coin_of\<close> for a draw within the rounding of \<open>maxi * p\<close>:
  at \<open>p = 1\<close> the code is tails for the 63 highest draws, \<open>coin_of\<close> for the highest
  only. In \<^verbatim>\<open>fair_die\<close> the product \<^verbatim>\<open>self.generator() * n\<close> is formed in the engine's
  unsigned result type, \<open>bits\<close> wide, and the quotient by \<^verbatim>\<open>self.maxi + 1\<close> is the C
  division of unsigned values.
\<close>

definition coin_of :: "nat \<Rightarrow> nat \<Rightarrow> real \<Rightarrow> bool" where
  "coin_of mx d p = (real d < real mx * p)"

definition die_of :: "nat \<Rightarrow> nat \<Rightarrow> nat \<Rightarrow> nat \<Rightarrow> nat" where
  "die_of bits mx d faces = ((d * faces) mod 2 ^ bits) div (mx + 1)"

definition coin_toss :: "Sampler \<Rightarrow> real \<Rightarrow> bool \<times> Sampler" where
  "coin_toss self p =
     (case minstd_call (generator self) of
        (d, g) \<Rightarrow> (coin_of (maxi self) d p, self\<lparr>generator := g\<rparr>))"

definition fair_die :: "Sampler \<Rightarrow> nat \<Rightarrow> nat \<times> Sampler" where
  "fair_die self faces =
     (case minstd_call (generator self) of
        (d, g) \<Rightarrow> (die_of (result_bits g) (maxi self) d faces, self\<lparr>generator := g\<rparr>))"

text \<open>
  The sampling methods advance the engine of the object they are called on. Each returns
  its outcome (a value, or the error raised) together with the object as the call
  leaves it.
\<close>

definition sample_1 :: "Sampler \<Rightarrow> (error + nat) \<times> Sampler" where
  "sample_1 self =
     (case fair_die self (n self) of
        (col, s1) \<Rightarrow>
          (case unchecked_read (proba s1) col of
             Inl e \<Rightarrow> (Inl e, s1)
           | Inr p \<Rightarrow>
               (case coin_toss s1 p of
                  (heads, s2) \<Rightarrow>
                    if heads then (Inr col, s2)
                    else (case unchecked_read (alias_tab s2) col of
                            Inl e \<Rightarrow> (Inl e, s2)
                          | Inr a \<Rightarrow> (Inr a, s2)))))"

text \<open>
  \<^verbatim>\<open>for i in range(k): samples[i] = self.sample_1()\<close>: the list of the \<open>k\<close> results in
  the order they are drawn. \<^verbatim>\<open>np.zeros(k)\<close> refuses a negative \<open>k\<close>.
\<close>

fun sample_k_loop :: "nat \<Rightarrow> Sampler \<Rightarrow> (error + nat list) \<times> Sampler" where
  "sample_k_loop 0 self = (Inr [], self)"
| "sample_k_loop (Suc k) self =
     (case sample_1 self of
        (Inl e, s1) \<Rightarrow> (Inl e, s1)
      | (Inr i, s1) \<Rightarrow>
          (case sample_k_loop k s1 of
             (Inl e, s2) \<Rightarrow> (Inl e, s2)
           | (Inr is, s2) \<Rightarrow> (Inr (i # is), s2)))"

definition sample_k :: "Sampler \<Rightarrow> int \<Rightarrow> (error + nat list) \<times> Sampler" where
  "sample_k self k = (if k < 0 then (Inl ValueError, self) else sample_k_loop (nat k) self)"

text \<open>
  \<^verbatim>\<open>for i in range(k): out[i] = values[self.sample_1()]\<close>: the read of \<^verbatim>\<open>values\<close> is
  unchecked, so an index past the end of the buffer does not stop the loop.
\<close>

fun sample_k_from_loop :: "nat \<Rightarrow> float_view \<Rightarrow> Sampler \<Rightarrow> (error + real list) \<times> Sampler" where
  "sample_k_from_loop 0 vals self = (Inr [], self)"
| "sample_k_from_loop (Suc k) vals self =
     (case sample_1 self of
        (Inl e, s1) \<Rightarrow> (Inl e, s1)
      | (Inr i, s1) \<Rightarrow>
          (case sample_k_from_loop k vals s1 of
             (Inl e, s2) \<Rightarrow> (Inl e, s2)
           | (Inr vs, s2) \<Rightarrow> (Inr (view_read vals i # vs), s2)))"

definition sample_k_from :: "Sampler \<Rightarrow> int \<Rightarrow> float_view \<Rightarrow> (error + real list) \<times> Sampler" where
  "sample_k_from self k vals =
     (if k < 0 then (Inl ValueError, self) else sample_k_from_loop (nat k) vals self)"

text \<open>
  The public method. \<open>k\<close> is a Python integer; passing it to a \<^verbatim>\<open>cdef\<close> method
  converts it to a C \<^verbatim>\<open>int\<close>. With \<open>k = 1\<close> and a value array the index is applied to the
  Python object, which checks it; with any other \<open>k\<close> the array is read as a memoryview in
  \<^verbatim>\<open>sample_k_from\<close>, unchecked. The value array is an array of \<^verbatim>\<open>np.float_t\<close>, as the
  signature of \<^verbatim>\<open>sample_k_from\<close> requires.
\<close>

datatype py_result = Index nat | Value real | Indices "nat list" | Values "real list"

definition c_int :: "int \<Rightarrow> error + int" where
  "c_int k = (if - (2 ^ 31) \<le> k \<and> k < 2 ^ 31 then Inr k else Inl OverflowError)"

definition sample :: "Sampler \<Rightarrow> int \<Rightarrow> float_view option \<Rightarrow> (error + py_result) \<times> Sampler" where
  "sample self k vals =
     (case vals of
        None \<Rightarrow>
          if k = 1 then
            (case sample_1 self of
               (Inl e, s1) \<Rightarrow> (Inl e, s1)
             | (Inr i, s1) \<Rightarrow> (Inr (Index i), s1))
          else
            (case c_int k of
               Inl e \<Rightarrow> (Inl e, self)
             | Inr kc \<Rightarrow>
                 (case sample_k self kc of
                    (Inl e, s1) \<Rightarrow> (Inl e, s1)
                  | (Inr is, s1) \<Rightarrow> (Inr (Indices is), s1)))
      | Some vs \<Rightarrow>
          if k = 1 then
            (case sample_1 self of
               (Inl e, s1) \<Rightarrow> (Inl e, s1)
             | (Inr i, s1) \<Rightarrow>
                 if i < length (items vs) then (Inr (Value (items vs ! i)), s1)
                 else (Inl IndexError, s1))
          else
            (case c_int k of
               Inl e \<Rightarrow> (Inl e, self)
             | Inr kc \<Rightarrow>
                 (case sample_k_from self kc vs of
                    (Inl e, s1) \<Rightarrow> (Inl e, s1)
                  | (Inr xs, s1) \<Rightarrow> (Inr (Values xs), s1))))"

subsection \<open>The distribution a table induces\<close>

text \<open>
  Section 3 of the specification: the chance that a draw returns \<open>k\<close>, computed from the
  two arrays, \<open>probability[k]/n\<close> plus \<open>(1 - probability[j])/n\<close> for every column \<open>j\<close> whose
  alias is \<open>k\<close>.
\<close>

definition draw_mass :: "nat \<Rightarrow> real list \<Rightarrow> nat list \<Rightarrow> nat \<Rightarrow> real" where
  "draw_mass m pr al k =
     pr ! k / real m + (\<Sum>j\<leftarrow>[0..<m]. if al ! j = k then (1 - pr ! j) / real m else 0)"

subsection \<open>Invariants of the construction\<close>

text \<open>
  The shape of the constructor's locals that every iteration of the pairing loop keeps:
  the three arrays have \<open>m\<close> entries, the worklists hold distinct indices below \<open>m\<close>,
  no index is in both, and every alias is an index below \<open>m\<close>.
\<close>

definition wl_inv :: "nat \<Rightarrow> locals \<Rightarrow> bool" where
  "wl_inv m st \<longleftrightarrow>
     length (weights st) = m \<and> length (l_proba st) = m \<and> length (l_alias st) = m \<and>
     distinct (small st @ large st) \<and> (\<forall>i\<in>set (small st @ large st). i < m) \<and>
     (\<forall>i<m. l_alias st ! i < m)"

text \<open>
  What the loop keeps about the numbers, for non-negative weights and \<open>avg = 1/m\<close>: no
  weight becomes negative, the weights of the indices waiting in \<open>small\<close> are below the
  average and those in \<open>large\<close> are not, and every probability written so far lies in
  \<open>[0, 1]\<close>.
\<close>

definition num_inv :: "nat \<Rightarrow> real \<Rightarrow> locals \<Rightarrow> bool" where
  "num_inv m avg st \<longleftrightarrow>
     (\<forall>i<m. 0 \<le> weights st ! i) \<and>
     (\<forall>i\<in>set (small st). weights st ! i < avg) \<and>
     (\<forall>i\<in>set (large st). avg \<le> weights st ! i) \<and>
     (\<forall>i<m. 0 \<le> l_proba st ! i \<and> l_proba st ! i \<le> 1)"

text \<open>
  A Sampler whose tables can be read at every column the die can return: \<open>n\<close> is
  positive, both tables have \<open>n\<close> entries, every alias is a column, and \<open>maxi\<close> is the
  engine's maximum.
\<close>

definition Sampler_ok :: "Sampler \<Rightarrow> bool" where
  "Sampler_ok s \<longleftrightarrow>
     0 < n s \<and> length (proba s) = n s \<and> length (alias_tab s) = n s \<and>
     (\<forall>j<n s. alias_tab s ! j < n s) \<and> maxi s = 2147483646"

subsection \<open>The worklist algorithm in the specification's words\<close>

text \<open>
  The state the pairing loop starts from, and the state it ends in.
\<close>

definition start_locals :: "real list \<Rightarrow> locals" where
  "start_locals w =
     \<lparr>weights = w, l_proba = replicate (length w) 0, l_alias = replicate (length w) 0,
      small = fst (populate w (1 / real (length w)) (length w)),
      large = snd (populate w (1 / real (length w)) (length w))\<rparr>"

definition paired :: "real list \<Rightarrow> locals" where
  "paired w = pair_loop (length w) (1 / real (length w)) (start_locals w)"

text \<open>
  Section 4.1 of the specification, step 3, written from its words and not from the
  code: one iteration pops some index \<open>less\<close> from \<open>small\<close> and some index \<open>more\<close> from
  \<open>large\<close> (the order of a worklist is left to the implementation, so the worklists
  are compared as multisets), sets \<open>probability[less] = weight[less] * n\<close> and
  \<open>alias[less] = more\<close>, adds \<open>weight[less] - avg\<close> to \<open>weight[more]\<close>, and pushes \<open>more\<close>
  back into \<open>small\<close> if its new weight is below \<open>avg\<close> and into \<open>large\<close> otherwise. The
  loop repeats this while both worklists are non-empty.
\<close>

definition spec_pair_step :: "nat \<Rightarrow> real \<Rightarrow> locals \<Rightarrow> locals \<Rightarrow> bool" where
  "spec_pair_step m avg st st' \<longleftrightarrow>
     (\<exists>lss\<in>set (small st). \<exists>mor\<in>set (large st).
        l_proba st' = (l_proba st)[lss := weights st ! lss * real m] \<and>
        l_alias st' = (l_alias st)[lss := mor] \<and>
        weights st' = (weights st)[mor := weights st ! mor + (weights st ! lss - avg)] \<and>
        (if weights st' ! mor < avg
         then mset (small st') = add_mset mor (mset (small st) - {#lss#}) \<and>
              mset (large st') = mset (large st) - {#mor#}
         else mset (small st') = mset (small st) - {#lss#} \<and>
              mset (large st') = add_mset mor (mset (large st) - {#mor#})))"

inductive spec_pairing :: "nat \<Rightarrow> real \<Rightarrow> locals \<Rightarrow> locals \<Rightarrow> bool" for m avg where
  exit: "small st = [] \<or> large st = [] \<Longrightarrow> spec_pairing m avg st st"
| iterate: "small st \<noteq> [] \<Longrightarrow> large st \<noteq> [] \<Longrightarrow> spec_pair_step m avg st st1 \<Longrightarrow>
     spec_pairing m avg st1 st2 \<Longrightarrow> spec_pairing m avg st st2"

text \<open>
  Step 4: \<open>pr\<close> is the probability array once both worklists are drained. Every index
  still in either worklist has probability \<open>1\<close>; the others keep what the loop gave
  them.
\<close>

definition spec_drained :: "locals \<Rightarrow> real list \<Rightarrow> bool" where
  "spec_drained st pr \<longleftrightarrow>
     length pr = length (l_proba st) \<and>
     (\<forall>idx<length pr.
        pr ! idx = (if idx \<in> set (small st) \<union> set (large st) then 1 else l_proba st ! idx))"

subsection \<open>Invariants behind mass conservation\<close>

text \<open>
  The weights of the indices still waiting in a worklist add up to their number times
  the average.
\<close>

definition sum_inv :: "real \<Rightarrow> locals \<Rightarrow> bool" where
  "sum_inv avg st \<longleftrightarrow>
     sum_list (map ((!) (weights st)) (small st @ large st)) =
       real (length (small st @ large st)) * avg"

text \<open>
  The mass of every index \<open>k\<close> is accounted for: the original weight \<open>w0[k]\<close> is what \<open>k\<close>
  still holds (its current weight while it waits in a worklist, \<open>probability[k]/m\<close> once
  it has been paired) plus what the columns paired so far have passed to \<open>k\<close> as their
  alias.
\<close>

definition mass_inv :: "nat \<Rightarrow> real list \<Rightarrow> locals \<Rightarrow> bool" where
  "mass_inv m w0 st \<longleftrightarrow>
     (\<forall>k<m. w0 ! k =
        (if k \<in> set (small st @ large st) then weights st ! k else l_proba st ! k / real m) +
        (\<Sum>j<m. if j \<notin> set (small st @ large st) \<and> l_alias st ! j = k
                then (1 - l_proba st ! j) / real m else 0))"

section \<open>Properties of the loops\<close>

lemma pair_loop_stop: "small st = [] \<or> large st = [] \<Longrightarrow> pair_loop m avg st = st"
  by (subst pair_loop.simps) auto

lemma pair_loop_go:
  "small st \<noteq> [] \<Longrightarrow> large st \<noteq> [] \<Longrightarrow> pair_loop m avg st = pair_loop m avg (pair_step m avg st)"
  by (subst pair_loop.simps) simp

lemma pair_loop_preserves:
  assumes "P st"
    and "\<And>s. P s \<Longrightarrow> small s \<noteq> [] \<Longrightarrow> large s \<noteq> [] \<Longrightarrow> P (pair_step m avg s)"
  shows "P (pair_loop m avg st)"
  using assms(1)
proof (induction "length (small st) + length (large st)" arbitrary: st rule: less_induct)
  case less
  show ?case
  proof (cases "small st \<noteq> [] \<and> large st \<noteq> []")
    case True
    then have "P (pair_step m avg st)"
      using less.prems assms(2) by blast
    then have "P (pair_loop m avg (pair_step m avg st))"
      using less.hyps True pair_step_measure by blast
    then show ?thesis
      using True by (simp add: pair_loop_go)
  next
    case False
    then show ?thesis
      using less.prems by (simp add: pair_loop_stop)
  qed
qed

lemma pair_loop_exit: "small (pair_loop m avg st) = [] \<or> large (pair_loop m avg st) = []"
proof (induction "length (small st) + length (large st)" arbitrary: st rule: less_induct)
  case less
  show ?case
  proof (cases "small st \<noteq> [] \<and> large st \<noteq> []")
    case True
    then show ?thesis
      using less.hyps [of "pair_step m avg st"] pair_step_measure [of st m avg]
      by (simp add: pair_loop_go)
  next
    case False
    then show ?thesis
      by (auto simp add: pair_loop_stop)
  qed
qed

lemma pair_step_unfold:
  "small st = sm @ [lss] \<Longrightarrow> large st = lg @ [mor] \<Longrightarrow>
   pair_step m avg st =
     (if (weights st)[mor := weights st ! mor + weights st ! lss - avg] ! mor \<ge> avg
      then \<lparr>weights = (weights st)[mor := weights st ! mor + weights st ! lss - avg],
            l_proba = (l_proba st)[lss := weights st ! lss * real m],
            l_alias = (l_alias st)[lss := mor], small = sm, large = mor # lg\<rparr>
      else \<lparr>weights = (weights st)[mor := weights st ! mor + weights st ! lss - avg],
            l_proba = (l_proba st)[lss := weights st ! lss * real m],
            l_alias = (l_alias st)[lss := mor], small = mor # sm, large = lg\<rparr>)"
  by (simp add: pair_step_def Let_def)

lemma pair_step_wl_inv:
  assumes "wl_inv m st" "small st \<noteq> []" "large st \<noteq> []"
  shows "wl_inv m (pair_step m avg st)"
proof -
  obtain sm lss where sm: "small st = sm @ [lss]"
    using assms(2) by (cases "small st" rule: rev_cases) auto
  obtain lg mor where lg: "large st = lg @ [mor]"
    using assms(3) by (cases "large st" rule: rev_cases) auto
  show ?thesis
    using assms(1) unfolding pair_step_unfold [OF sm lg] wl_inv_def sm lg
    by (auto simp add: nth_list_update)
qed

lemma classify_Suc: "populate w avg (Suc m) = classify w avg m (populate w avg m)"
  by (simp add: populate_def)

lemma populate_sets:
  "set (fst (populate w avg m)) \<union> set (snd (populate w avg m)) = {0..<m} \<and>
   distinct (fst (populate w avg m) @ snd (populate w avg m)) \<and>
   (\<forall>i\<in>set (fst (populate w avg m)). w ! i < avg) \<and>
   (\<forall>i\<in>set (snd (populate w avg m)). avg \<le> w ! i)"
proof (induction m)
  case 0
  show ?case by (simp add: populate_def)
next
  case (Suc m)
  obtain sm lg where p: "populate w avg m = (sm, lg)" by (cases "populate w avg m")
  have "m \<notin> set sm \<union> set lg" using Suc p by auto
  then show ?case
    using Suc unfolding classify_Suc p classify_def
    by (auto simp add: atLeastLessThanSuc)
qed

lemma drain_nth:
  "i < length pr \<Longrightarrow> drain wl pr ! i = (if i \<in> set wl then 1 else pr ! i)"
proof -
  have "\<And>p. i < length p \<Longrightarrow>
          fold (\<lambda>idx p. p[idx := (1::real)]) xs p ! i = (if i \<in> set xs then 1 else p ! i)" for xs
    by (induction xs) (auto simp add: nth_list_update)
  then show "i < length pr \<Longrightarrow> drain wl pr ! i = (if i \<in> set wl then 1 else pr ! i)"
    unfolding drain_def by (metis set_rev)
qed

lemma length_drain: "length (drain wl pr) = length pr"
proof -
  have "\<And>p. length (fold (\<lambda>idx p. p[idx := (1::real)]) xs p) = length p" for xs
    by (induction xs) auto
  then show ?thesis by (simp add: drain_def)
qed

lemma populate_wl_inv:
  "wl_inv (length w) \<lparr>weights = w, l_proba = replicate (length w) 0,
      l_alias = replicate (length w) 0,
      small = fst (populate w avg (length w)), large = snd (populate w avg (length w))\<rparr>"
proof -
  have "\<forall>i\<in>set (fst (populate w avg (length w))) \<union> set (snd (populate w avg (length w))).
          i < length w"
    using populate_sets [of w avg "length w"] by simp
  then show ?thesis
    using populate_sets [of w avg "length w"] by (auto simp add: wl_inv_def)
qed

lemma pair_loop_wl_inv: "wl_inv m st \<Longrightarrow> wl_inv m (pair_loop m avg st)"
  by (rule pair_loop_preserves) (auto intro: pair_step_wl_inv)

lemma build_tables_shape:
  "length (weights (build_tables w)) = length w \<and>
   length (l_proba (build_tables w)) = length w \<and>
   length (l_alias (build_tables w)) = length w \<and>
   (\<forall>i<length w. l_alias (build_tables w) ! i < length w)"
  using pair_loop_wl_inv [OF populate_wl_inv, of w "1 / real (length w)"]
  by (simp add: build_tables_def Let_def wl_inv_def length_drain)

text \<open>The constructor in closed form: the heap it leaves and the object it builds.\<close>

lemma Sampler_init_eq:
  "Sampler_init bits r h a c seed =
     (if c \<and> h ! a = [] then Inl ValueError
      else Inr (if c then h @ [weights (build_tables (h ! a))]
                else h[a := weights (build_tables (h ! a))],
                \<lparr>n = length (h ! a),
                 generator = minstd_rand_seed bits (case seed of None \<Rightarrow> r | Some sd \<Rightarrow> sd),
                 maxi = 2147483646,
                 alias_tab = l_alias (build_tables (h ! a)),
                 proba = l_proba (build_tables (h ! a))\<rparr>))"
  by (cases seed) (simp_all add: Sampler_init_def Let_def minstd_max_def minstd_modulus_def)

text \<open>Rewrite rules that run the construction on a concrete weight vector.\<close>

lemmas build_eval = build_tables_def populate_def classify_def Let_def pair_loop_stop pair_loop_go
  pair_step_def drain_def

lemma pair_step_num_inv:
  assumes "wl_inv m st" "num_inv m (1 / real m) st" "small st \<noteq> []" "large st \<noteq> []"
  shows "num_inv m (1 / real m) (pair_step m (1 / real m) st)"
proof -
  obtain sm lss where sm: "small st = sm @ [lss]"
    using assms(3) by (cases "small st" rule: rev_cases) auto
  obtain lg mor where lg: "large st = lg @ [mor]"
    using assms(4) by (cases "large st" rule: rev_cases) auto
  have lss: "lss < m" and mor: "mor < m"
    using assms(1) by (simp_all add: wl_inv_def sm lg)
  have len: "length (weights st) = m" "length (l_proba st) = m"
    using assms(1) by (simp_all add: wl_inv_def)
  have diff: "mor \<notin> set sm" "mor \<notin> set lg" "lss \<noteq> mor"
    using assms(1) by (auto simp add: wl_inv_def sm lg)
  have w_lss: "0 \<le> weights st ! lss" "weights st ! lss < 1 / real m"
    and w_mor: "1 / real m \<le> weights st ! mor"
    using assms(2) lss by (simp_all add: num_inv_def sm lg)
  have "weights st ! lss * real m < 1"
    using w_lss(2) lss by (simp add: pos_less_divide_eq)
  then have p: "0 \<le> weights st ! lss * real m" "weights st ! lss * real m \<le> 1"
    using w_lss(1) by simp_all
  have nn: "0 \<le> weights st ! mor + weights st ! lss - 1 / real m"
    using w_lss(1) w_mor by simp
  show ?thesis
    using assms(2) p nn diff len lss mor
    unfolding pair_step_unfold [OF sm lg] num_inv_def sm lg
    by (auto simp add: nth_list_update)
qed

lemma populate_num_inv:
  assumes "\<forall>x\<in>set w. 0 \<le> x"
  shows "num_inv (length w) avg \<lparr>weights = w, l_proba = replicate (length w) 0,
      l_alias = replicate (length w) 0,
      small = fst (populate w avg (length w)), large = snd (populate w avg (length w))\<rparr>"
  using populate_sets [of w avg "length w"] assms by (simp add: num_inv_def)

lemma pair_loop_num_inv:
  assumes "wl_inv m st" "num_inv m (1 / real m) st"
  shows "num_inv m (1 / real m) (pair_loop m (1 / real m) st)"
proof -
  have "wl_inv m (pair_loop m (1 / real m) st) \<and> num_inv m (1 / real m) (pair_loop m (1 / real m) st)"
    by (rule pair_loop_preserves [where P = "\<lambda>s. wl_inv m s \<and> num_inv m (1 / real m) s"])
      (auto simp add: assms intro: pair_step_wl_inv pair_step_num_inv)
  then show ?thesis ..
qed

lemma build_tables_proba_range:
  assumes "\<forall>x\<in>set w. 0 \<le> x" "i < length w"
  shows "0 \<le> l_proba (build_tables w) ! i \<and> l_proba (build_tables w) ! i \<le> 1"
proof -
  let ?m = "length w" and ?avg = "1 / real (length w)"
  let ?st0 = "\<lparr>weights = w, l_proba = replicate ?m 0, l_alias = replicate ?m 0,
      small = fst (populate w ?avg ?m), large = snd (populate w ?avg ?m)\<rparr>"
  let ?st = "pair_loop ?m ?avg ?st0"
  have wl: "wl_inv ?m ?st"
    by (rule pair_loop_wl_inv [OF populate_wl_inv])
  have "num_inv ?m ?avg ?st"
    by (rule pair_loop_num_inv [OF populate_wl_inv populate_num_inv [OF assms(1)]])
  then have r: "0 \<le> l_proba ?st ! i \<and> l_proba ?st ! i \<le> 1"
    using assms(2) by (simp add: num_inv_def)
  have len: "length (l_proba ?st) = ?m"
    using wl by (simp add: wl_inv_def)
  have "l_proba (build_tables w) = drain (large ?st) (drain (small ?st) (l_proba ?st))"
    by (simp add: build_tables_def Let_def)
  then show ?thesis
    using r len assms(2) by (simp add: drain_nth length_drain)
qed

text \<open>The loop of the code is a run of the specification's loop.\<close>

lemma build_tables_paired:
  "build_tables w =
     (paired w)\<lparr>l_proba := drain (large (paired w)) (drain (small (paired w)) (l_proba (paired w))),
                small := [], large := []\<rparr>"
  by (simp add: build_tables_def paired_def start_locals_def Let_def)

lemma mset_butlast: "xs \<noteq> [] \<Longrightarrow> mset (butlast xs) = mset xs - {#last xs#}"
  by (cases xs rule: rev_cases) simp_all

lemma pair_step_is_spec_step:
  assumes "small st \<noteq> []" "large st \<noteq> []"
  shows "spec_pair_step m avg st (pair_step m avg st)"
proof -
  let ?lss = "last (small st)" and ?mor = "last (large st)"
  have w: "weights st ! ?mor + weights st ! ?lss - avg = weights st ! ?mor + (weights st ! ?lss - avg)"
    by simp
  have "?lss \<in> set (small st)" "?mor \<in> set (large st)"
    using assms by simp_all
  moreover have
    "l_proba (pair_step m avg st) = (l_proba st)[?lss := weights st ! ?lss * real m] \<and>
     l_alias (pair_step m avg st) = (l_alias st)[?lss := ?mor] \<and>
     weights (pair_step m avg st) =
       (weights st)[?mor := weights st ! ?mor + (weights st ! ?lss - avg)] \<and>
     (if weights (pair_step m avg st) ! ?mor < avg
      then mset (small (pair_step m avg st)) = add_mset ?mor (mset (small st) - {#?lss#}) \<and>
           mset (large (pair_step m avg st)) = mset (large st) - {#?mor#}
      else mset (small (pair_step m avg st)) = mset (small st) - {#?lss#} \<and>
           mset (large (pair_step m avg st)) = add_mset ?mor (mset (large st) - {#?mor#}))"
    using assms unfolding pair_step_def Let_def w
    by (simp add: mset_butlast not_less)
  ultimately show ?thesis
    unfolding spec_pair_step_def by blast
qed

lemma pair_loop_is_spec_pairing: "spec_pairing m avg st (pair_loop m avg st)"
proof (induction "length (small st) + length (large st)" arbitrary: st rule: less_induct)
  case less
  show ?case
  proof (cases "small st \<noteq> [] \<and> large st \<noteq> []")
    case True
    then have "spec_pairing m avg (pair_step m avg st) (pair_loop m avg (pair_step m avg st))"
      using less.hyps pair_step_measure by blast
    then have "spec_pairing m avg st (pair_loop m avg (pair_step m avg st))"
      using True pair_step_is_spec_step spec_pairing.iterate by blast
    then show ?thesis
      using True by (simp add: pair_loop_go)
  next
    case False
    then show ?thesis
      by (auto simp add: pair_loop_stop intro: spec_pairing.exit)
  qed
qed

lemma length_l_proba_paired: "length (l_proba (paired w)) = length w"
  using pair_loop_wl_inv [OF populate_wl_inv, of w "1 / real (length w)"]
  by (simp add: paired_def start_locals_def wl_inv_def)

section \<open>Mass conservation for weights that sum to one\<close>

lemma pair_step_effect:
  assumes "wl_inv m st" "small st = sm @ [lss]" "large st = lg @ [mor]"
  shows "weights (pair_step m avg st) = (weights st)[mor := weights st ! mor + weights st ! lss - avg]"
    and "l_proba (pair_step m avg st) = (l_proba st)[lss := weights st ! lss * real m]"
    and "l_alias (pair_step m avg st) = (l_alias st)[lss := mor]"
    and "set (small (pair_step m avg st) @ large (pair_step m avg st)) =
           set (small st @ large st) - {lss}"
    and "length (small (pair_step m avg st) @ large (pair_step m avg st)) =
           length (sm @ lg) + 1"
    and "mset (small (pair_step m avg st) @ large (pair_step m avg st)) = mset (sm @ lg) + {#mor#}"
    and "lss \<noteq> mor" "lss < m" "mor < m" "mor \<notin> set (sm @ lg)" "lss \<notin> set (sm @ lg)"
  using assms(1) unfolding pair_step_unfold [OF assms(2,3)] wl_inv_def assms(2,3)
  by auto

lemma pair_step_sum_inv:
  assumes "wl_inv m st" "sum_inv avg st" "small st \<noteq> []" "large st \<noteq> []"
  shows "sum_inv avg (pair_step m avg st)"
proof -
  obtain sm lss where sm: "small st = sm @ [lss]"
    using assms(3) by (cases "small st" rule: rev_cases) auto
  obtain lg mor where lg: "large st = lg @ [mor]"
    using assms(4) by (cases "large st" rule: rev_cases) auto
  note e = pair_step_effect [OF assms(1) sm lg]
  let ?w = "weights st" and ?st' = "pair_step m avg st"
  let ?w' = "?w[mor := ?w ! mor + ?w ! lss - avg]"
  have len: "length ?w = m"
    using assms(1) by (simp add: wl_inv_def)
  have old: "sum_list (map ((!) ?w) (sm @ lg)) + ?w ! lss + ?w ! mor = real (length (sm @ lg) + 2) * avg"
    using assms(2) by (simp add: sum_inv_def sm lg)
  have same: "map ((!) ?w') (sm @ lg) = map ((!) ?w) (sm @ lg)"
  proof (intro map_cong refl)
    fix x
    assume "x \<in> set (sm @ lg)"
    then have "mor \<noteq> x"
      using e(10) by auto
    then show "?w' ! x = ?w ! x"
      by simp
  qed
  have "sum_list (map ((!) ?w') (small ?st' @ large ?st')) =
        sum_mset (image_mset ((!) ?w') (mset (small ?st' @ large ?st')))"
    by (metis mset_map sum_mset_sum_list)
  also have "\<dots> = sum_mset (image_mset ((!) ?w') (mset (sm @ lg) + {#mor#}))"
    by (simp only: e(6))
  also have "\<dots> = sum_list (map ((!) ?w') (sm @ lg)) + ?w' ! mor"
    by (simp flip: mset_map add: sum_mset_sum_list del: mset_append map_append)
  also have "\<dots> = sum_list (map ((!) ?w) (sm @ lg)) + (?w ! mor + ?w ! lss - avg)"
    using e(9) len by (simp only: same) simp
  also have "\<dots> = real (length (sm @ lg) + 1) * avg"
    using old by (simp add: algebra_simps)
  finally have "sum_list (map ((!) ?w') (small ?st' @ large ?st')) =
      real (length (sm @ lg) + 1) * avg" .
  then show ?thesis
    unfolding sum_inv_def e(1) e(5) .
qed

lemma pair_step_mass_inv:
  assumes "wl_inv m st" "mass_inv m w0 st" "small st \<noteq> []" "large st \<noteq> []"
  shows "mass_inv m w0 (pair_step m (1 / real m) st)"
proof -
  obtain sm lss where sm: "small st = sm @ [lss]"
    using assms(3) by (cases "small st" rule: rev_cases) auto
  obtain lg mor where lg: "large st = lg @ [mor]"
    using assms(4) by (cases "large st" rule: rev_cases) auto
  note e = pair_step_effect [OF assms(1) sm lg]
  let ?avg = "1 / real m"
  let ?st' = "pair_step m ?avg st"
  define W where "W = set (small st @ large st)"
  define W' where "W' = set (small ?st' @ large ?st')"
  let ?w = "weights st" and ?p = "l_proba st" and ?a = "l_alias st"
  let ?w' = "weights ?st'" and ?p' = "l_proba ?st'" and ?a' = "l_alias ?st'"
  let ?c = "\<lambda>k j. if j \<notin> W \<and> ?a ! j = k then (1 - ?p ! j) / real m else 0"
  let ?c' = "\<lambda>k j. if j \<notin> W' \<and> ?a' ! j = k then (1 - ?p' ! j) / real m else 0"
  let ?d = "\<lambda>k. if k = mor then ?avg - ?w ! lss else 0"
  have len: "length ?w = m" "length ?p = m" "length ?a = m"
    using assms(1) by (simp_all add: wl_inv_def)
  have m: "0 < m"
    using e(8) by simp
  have inW: "lss \<in> W" "mor \<in> W"
    by (simp_all add: W_def sm lg)
  have W': "W' = W - {lss}"
    unfolding W_def W'_def by (rule e(4))
  have w': "?w' = ?w[mor := ?w ! mor + ?w ! lss - ?avg]"
    and p': "?p' = ?p[lss := ?w ! lss * real m]"
    and a': "?a' = ?a[lss := mor]"
    by (rule e(1) e(2) e(3))+
  have side: "(\<Sum>j<m. ?c' k j) = (\<Sum>j<m. ?c k j) + ?d k" for k
  proof -
    have other: "?c' k j = ?c k j" if "j \<in> {..<m} - {lss}" for j
      using that by (simp add: W' p' a')
    have "(\<Sum>j<m. ?c' k j) = ?c' k lss + (\<Sum>j\<in>{..<m} - {lss}. ?c' k j)"
      using e(8) by (intro sum.remove) simp_all
    also have "(\<Sum>j\<in>{..<m} - {lss}. ?c' k j) = (\<Sum>j\<in>{..<m} - {lss}. ?c k j)"
      using other by (intro sum.cong refl)
    also have "?c' k lss = ?d k"
      using e(8) m len by (auto simp add: W' p' a' field_simps)
    finally have 1: "(\<Sum>j<m. ?c' k j) = ?d k + (\<Sum>j\<in>{..<m} - {lss}. ?c k j)" .
    have "(\<Sum>j<m. ?c k j) = ?c k lss + (\<Sum>j\<in>{..<m} - {lss}. ?c k j)"
      using e(8) by (intro sum.remove) simp_all
    also have "?c k lss = 0"
      using inW(1) by simp
    finally show ?thesis
      using 1 by simp
  qed
  have main: "(if k \<in> W' then ?w' ! k else ?p' ! k / real m) =
              (if k \<in> W then ?w ! k else ?p ! k / real m) - ?d k" if "k < m" for k
  proof -
    consider "k = lss" | "k = mor" | "k \<noteq> lss" "k \<noteq> mor"
      by blast
    then show ?thesis
    proof cases
      case 1
      then show ?thesis
        using e(7) e(8) inW m len by (simp add: W' p')
    next
      case 2
      then show ?thesis
        using e(7) e(9) inW len by (simp add: W' w')
    next
      case 3
      then show ?thesis
        by (simp add: W' w' p')
    qed
  qed
  show ?thesis
    unfolding mass_inv_def W_def [symmetric] W'_def [symmetric]
  proof (intro allI impI)
    fix k
    assume k: "k < m"
    have "w0 ! k = (if k \<in> W then ?w ! k else ?p ! k / real m) + (\<Sum>j<m. ?c k j)"
      using assms(2) k unfolding mass_inv_def W_def by blast
    then show "w0 ! k = (if k \<in> W' then ?w' ! k else ?p' ! k / real m) + (\<Sum>j<m. ?c' k j)"
      unfolding side main [OF k] by simp
  qed
qed

lemma sum_list_at_least:
  "\<forall>x\<in>set xs. a \<le> f x \<Longrightarrow> real (length xs) * a \<le> sum_list (map f xs)" for a :: real
  by (induction xs) (auto simp add: algebra_simps)

lemma sum_list_all_equal:
  "\<forall>x\<in>set xs. a \<le> f x \<Longrightarrow> sum_list (map f xs) = real (length xs) * a \<Longrightarrow>
     \<forall>x\<in>set xs. f x = a" for a :: real
proof (induction xs)
  case Nil
  then show ?case by simp
next
  case (Cons x xs)
  have lo: "real (length xs) * a \<le> sum_list (map f xs)"
    using Cons.prems(1) by (intro sum_list_at_least) simp
  have eq: "f x + sum_list (map f xs) = a + real (length xs) * a"
    using Cons.prems(2) by (simp add: distrib_right)
  have ge: "a \<le> f x"
    using Cons.prems(1) by simp
  have 1: "f x = a"
    using lo eq ge by linarith
  have 2: "sum_list (map f xs) = real (length xs) * a"
    using lo eq ge by linarith
  have "\<forall>x\<in>set xs. f x = a"
    using Cons.IH Cons.prems(1) 2 by simp
  then show ?case
    using 1 by simp
qed


lemma sum_list_below:
  "xs \<noteq> [] \<Longrightarrow> \<forall>x\<in>set xs. f x < a \<Longrightarrow> sum_list (map f xs) < real (length xs) * a"
  for a :: real
proof (induction xs)
  case Nil
  then show ?case by simp
next
  case (Cons x xs)
  show ?case
  proof (cases "xs = []")
    case True
    then show ?thesis
      using Cons.prems(2) by simp
  next
    case False
    then have "sum_list (map f xs) < real (length xs) * a"
      using Cons.IH Cons.prems(2) by simp
    moreover have "f x < a"
      using Cons.prems(2) by simp
    ultimately show ?thesis
      by (simp add: algebra_simps)
  qed
qed

lemma start_locals_sum_inv:
  assumes "w \<noteq> []" "sum_list w = 1"
  shows "sum_inv (1 / real (length w)) (start_locals w)"
proof -
  let ?m = "length w" and ?avg = "1 / real (length w)"
  let ?sm = "fst (populate w ?avg ?m)" and ?lg = "snd (populate w ?avg ?m)"
  have d: "distinct (?sm @ ?lg)" and s: "set (?sm @ ?lg) = {0..<?m}"
    using populate_sets [of w ?avg ?m] by auto
  have "sum_list (map ((!) w) (?sm @ ?lg)) = sum ((!) w) (set (?sm @ ?lg))"
    using d by (rule sum_list_distinct_conv_sum_set)
  also have "\<dots> = sum ((!) w) (set [0..<?m])"
    by (simp only: s set_upt)
  also have "\<dots> = sum_list (map ((!) w) [0..<?m])"
    by (rule interv_sum_list_conv_sum_set_nat [symmetric])
  also have "\<dots> = 1"
    by (simp only: map_nth assms(2))
  finally have total: "sum_list (map ((!) w) (?sm @ ?lg)) = 1" .
  have "length (?sm @ ?lg) = card (set (?sm @ ?lg))"
    using d by (simp only: distinct_card)
  then have "length (?sm @ ?lg) = ?m"
    by (simp only: s) simp
  then have "real (length (?sm @ ?lg)) * ?avg = 1"
    using assms(1) by simp
  then show ?thesis
    using total by (simp add: sum_inv_def start_locals_def)
qed

lemma start_locals_mass_inv: "mass_inv (length w) w (start_locals w)"
proof -
  let ?m = "length w" and ?avg = "1 / real (length w)"
  have s: "set (fst (populate w ?avg ?m) @ snd (populate w ?avg ?m)) = {0..<?m}"
    using populate_sets [of w ?avg ?m] by auto
  show ?thesis
    unfolding mass_inv_def start_locals_def by (simp add: s del: set_append)
qed

lemma paired_invariants:
  assumes "w \<noteq> []" "\<forall>x\<in>set w. 0 \<le> x" "sum_list w = 1"
  shows "wl_inv (length w) (paired w)"
    and "num_inv (length w) (1 / real (length w)) (paired w)"
    and "sum_inv (1 / real (length w)) (paired w)"
    and "mass_inv (length w) w (paired w)"
proof -
  let ?m = "length w" and ?avg = "1 / real (length w)"
  let ?P = "\<lambda>s. wl_inv ?m s \<and> num_inv ?m ?avg s \<and> sum_inv ?avg s \<and> mass_inv ?m w s"
  have "?P (start_locals w)"
    using populate_wl_inv [of w ?avg] populate_num_inv [OF assms(2), of ?avg]
      start_locals_sum_inv [OF assms(1,3)] start_locals_mass_inv [of w]
    by (simp add: start_locals_def)
  then have "?P (pair_loop ?m ?avg (start_locals w))"
    by (rule pair_loop_preserves)
      (simp add: pair_step_wl_inv pair_step_num_inv pair_step_sum_inv pair_step_mass_inv)
  then show "wl_inv (length w) (paired w)"
    and "num_inv (length w) (1 / real (length w)) (paired w)"
    and "sum_inv (1 / real (length w)) (paired w)"
    and "mass_inv (length w) w (paired w)"
    by (simp_all add: paired_def)
qed

lemma paired_remaining_average:
  assumes "w \<noteq> []" "\<forall>x\<in>set w. 0 \<le> x" "sum_list w = 1"
    and "k \<in> set (small (paired w) @ large (paired w))"
  shows "weights (paired w) ! k = 1 / real (length w)"
proof -
  let ?st = "paired w" and ?avg = "1 / real (length w)"
  note inv = paired_invariants [OF assms(1-3)]
  have exit: "small ?st = [] \<or> large ?st = []"
    unfolding paired_def by (rule pair_loop_exit)
  have sm: "\<forall>i\<in>set (small ?st). weights ?st ! i < ?avg"
    and lg: "\<forall>i\<in>set (large ?st). ?avg \<le> weights ?st ! i"
    using inv(2) by (simp_all add: num_inv_def)
  have small_empty: "small ?st = []"
  proof (rule ccontr)
    assume ne: "small ?st \<noteq> []"
    then have l: "large ?st = []"
      using exit by simp
    have "sum_list (map ((!) (weights ?st)) (small ?st)) < real (length (small ?st)) * ?avg"
      using ne sm by (rule sum_list_below)
    then show False
      using inv(3) l by (simp add: sum_inv_def)
  qed
  have "sum_list (map ((!) (weights ?st)) (large ?st)) = real (length (large ?st)) * ?avg"
    using inv(3) small_empty by (simp add: sum_inv_def)
  then have "\<forall>i\<in>set (large ?st). weights ?st ! i = ?avg"
    using lg by (intro sum_list_all_equal)
  then show ?thesis
    using assms(4) small_empty by simp
qed

text \<open>
  For non-negative weights that sum to \<open>1\<close> the table gives every index exactly its
  weight.
\<close>

lemma mass_conservation_normalised:
  assumes "w \<noteq> []" "\<forall>x\<in>set w. 0 \<le> x" "sum_list w = 1" "k < length w"
  shows "draw_mass (length w) (l_proba (build_tables w)) (l_alias (build_tables w)) k = w ! k"
proof -
  let ?m = "length w" and ?st = "paired w"
  define W where "W = set (small ?st @ large ?st)"
  let ?pf = "l_proba (build_tables w)" and ?p = "l_proba ?st" and ?a = "l_alias ?st"
  note inv = paired_invariants [OF assms(1-3)]
  have m: "0 < ?m"
    using assms(1) by simp
  have lenp: "length ?p = ?m"
    using inv(1) by (simp add: wl_inv_def)
  have pf: "?pf ! j = (if j \<in> W then 1 else ?p ! j)" if "j < ?m" for j
    using that lenp by (auto simp add: W_def build_tables_paired drain_nth length_drain)
  have al: "l_alias (build_tables w) = ?a"
    by (simp add: build_tables_paired)
  have avg: "weights ?st ! j = 1 / real ?m" if "j \<in> W" for j
    using paired_remaining_average [OF assms(1-3)] that by (simp add: W_def)
  have mass: "w ! k = (if k \<in> W then weights ?st ! k else ?p ! k / real ?m) +
      (\<Sum>j<?m. if j \<notin> W \<and> ?a ! j = k then (1 - ?p ! j) / real ?m else 0)"
    using inv(4) assms(4) unfolding mass_inv_def W_def by blast
  have "(\<Sum>j\<leftarrow>[0..<?m]. if ?a ! j = k then (1 - ?pf ! j) / real ?m else 0) =
        (\<Sum>j\<in>set [0..<?m]. if ?a ! j = k then (1 - ?pf ! j) / real ?m else 0)"
    by (rule interv_sum_list_conv_sum_set_nat)
  also have "\<dots> = (\<Sum>j<?m. if ?a ! j = k then (1 - ?pf ! j) / real ?m else 0)"
    by (simp add: lessThan_atLeast0)
  also have "\<dots> = (\<Sum>j<?m. if j \<notin> W \<and> ?a ! j = k then (1 - ?p ! j) / real ?m else 0)"
    by (intro sum.cong refl) (simp add: pf)
  finally have side: "(\<Sum>j\<leftarrow>[0..<?m]. if ?a ! j = k then (1 - ?pf ! j) / real ?m else 0) =
        (\<Sum>j<?m. if j \<notin> W \<and> ?a ! j = k then (1 - ?p ! j) / real ?m else 0)" .
  have main: "?pf ! k / real ?m = (if k \<in> W then weights ?st ! k else ?p ! k / real ?m)"
    using assms(4) avg by (simp add: pf)
  show ?thesis
    unfolding draw_mass_def al side main mass ..
qed

section \<open>Properties of sampling\<close>

lemma minstd_call_le_max: "fst (minstd_call g) \<le> 2147483646"
proof -
  have "(minstd_multiplier * lcg_state g) mod 2147483647 < 2147483647"
    by simp
  then show ?thesis
    by (simp add: minstd_call_def Let_def minstd_modulus_def)
qed

lemma die_of_less:
  assumes "0 < faces" "d \<le> mx"
  shows "die_of bits mx d faces < faces"
proof -
  have "(d * faces) mod 2 ^ bits \<le> d * faces"
    by simp
  also have "\<dots> \<le> mx * faces"
    using assms(2) by simp
  also have "\<dots> < faces * (mx + 1)"
    using assms(1) by simp
  finally show ?thesis
    unfolding die_of_def by (simp add: less_mult_imp_div_less)
qed

lemma fair_die_less:
  assumes "Sampler_ok s"
  shows "fst (fair_die s (n s)) < n s"
proof -
  obtain d g where c: "minstd_call (generator s) = (d, g)"
    by (cases "minstd_call (generator s)")
  have "d \<le> maxi s"
    using minstd_call_le_max [of "generator s"] assms by (simp add: c Sampler_ok_def)
  moreover have "0 < n s"
    using assms by (simp add: Sampler_ok_def)
  ultimately have "die_of (result_bits g) (maxi s) d (n s) < n s"
    by (intro die_of_less)
  then show ?thesis
    by (simp add: fair_die_def c)
qed

lemma fair_die_frame:
  "proba (snd (fair_die s f)) = proba s \<and> alias_tab (snd (fair_die s f)) = alias_tab s \<and>
   n (snd (fair_die s f)) = n s \<and> maxi (snd (fair_die s f)) = maxi s"
  by (simp add: fair_die_def split: prod.splits)

lemma coin_toss_frame:
  "proba (snd (coin_toss s p)) = proba s \<and> alias_tab (snd (coin_toss s p)) = alias_tab s \<and>
   n (snd (coin_toss s p)) = n s \<and> maxi (snd (coin_toss s p)) = maxi s"
  by (simp add: coin_toss_def split: prod.splits)

lemma sample_1_frame:
  "proba (snd (sample_1 s)) = proba s \<and> alias_tab (snd (sample_1 s)) = alias_tab s \<and>
   n (snd (sample_1 s)) = n s \<and> maxi (snd (sample_1 s)) = maxi s"
  by (auto simp add: sample_1_def fair_die_def coin_toss_def split: prod.splits sum.splits)

lemma sample_1_ok:
  assumes "Sampler_ok s"
  shows "sample_1 s =
     (case fair_die s (n s) of
        (col, s1) \<Rightarrow>
          (case coin_toss s1 (proba s ! col) of
             (heads, s2) \<Rightarrow> (Inr (if heads then col else alias_tab s ! col), s2)))"
proof -
  obtain col s1 where f: "fair_die s (n s) = (col, s1)"
    by (cases "fair_die s (n s)")
  have col: "col < n s"
    using fair_die_less [OF assms] f by simp
  have s1: "proba s1 = proba s" "alias_tab s1 = alias_tab s"
    using fair_die_frame [of s "n s"] f by simp_all
  obtain heads s2 where c: "coin_toss s1 (proba s ! col) = (heads, s2)"
    by (cases "coin_toss s1 (proba s ! col)")
  have s2: "alias_tab s2 = alias_tab s"
    using coin_toss_frame [of s1 "proba s ! col"] c s1 by simp
  show ?thesis
    using col assms
    by (simp add: sample_1_def f c s1 s2 unchecked_read_def Sampler_ok_def)
qed

lemma sample_1_total:
  assumes "Sampler_ok s"
  shows "\<exists>i. fst (sample_1 s) = Inr i \<and> i < n s"
proof -
  obtain col s1 where f: "fair_die s (n s) = (col, s1)"
    by (cases "fair_die s (n s)")
  have col: "col < n s"
    using fair_die_less [OF assms] f by simp
  then have "alias_tab s ! col < n s"
    using assms by (simp add: Sampler_ok_def)
  then show ?thesis
    using col by (simp add: sample_1_ok [OF assms] f split: prod.splits)
qed

lemma sample_1_keeps_ok: "Sampler_ok s \<Longrightarrow> Sampler_ok (snd (sample_1 s))"
  using sample_1_frame [of s] by (simp add: Sampler_ok_def)

lemma sample_k_loop_frame:
  "proba (snd (sample_k_loop k s)) = proba s \<and> alias_tab (snd (sample_k_loop k s)) = alias_tab s \<and>
   n (snd (sample_k_loop k s)) = n s \<and> maxi (snd (sample_k_loop k s)) = maxi s"
proof (induction k arbitrary: s)
  case 0
  show ?case by simp
next
  case (Suc k)
  show ?case
    using sample_1_frame [of s] Suc [of "snd (sample_1 s)"]
    by (auto split: prod.splits sum.splits)
qed

lemma sample_k_from_loop_frame:
  "proba (snd (sample_k_from_loop k vals s)) = proba s \<and>
   alias_tab (snd (sample_k_from_loop k vals s)) = alias_tab s \<and>
   n (snd (sample_k_from_loop k vals s)) = n s \<and> maxi (snd (sample_k_from_loop k vals s)) = maxi s"
proof (induction k arbitrary: s)
  case 0
  show ?case by simp
next
  case (Suc k)
  show ?case
    using sample_1_frame [of s] Suc [of "snd (sample_1 s)"]
    by (auto split: prod.splits sum.splits)
qed

lemma sample_frame:
  "proba (snd (sample s k vals)) = proba s \<and> alias_tab (snd (sample s k vals)) = alias_tab s \<and>
   n (snd (sample s k vals)) = n s \<and> maxi (snd (sample s k vals)) = maxi s"
proof (cases vals)
  case None
  then show ?thesis
    using sample_1_frame [of s] sample_k_loop_frame [of "nat k" s]
    by (auto simp add: sample_def sample_k_def c_int_def split: prod.splits sum.splits)
next
  case (Some vs)
  then show ?thesis
    using sample_1_frame [of s] sample_k_from_loop_frame [of "nat k" vs s]
    by (auto simp add: sample_def sample_k_from_def c_int_def split: prod.splits sum.splits)
qed

lemma sample_k_loop_total:
  "Sampler_ok s \<Longrightarrow>
     \<exists>xs. fst (sample_k_loop k s) = Inr xs \<and> length xs = k \<and> (\<forall>i\<in>set xs. i < n s)"
proof (induction k arbitrary: s)
  case 0
  show ?case by simp
next
  case (Suc k)
  obtain i where i: "fst (sample_1 s) = Inr i" "i < n s"
    using sample_1_total [OF Suc.prems] by blast
  obtain xs where xs: "fst (sample_k_loop k (snd (sample_1 s))) = Inr xs" "length xs = k"
      "\<forall>i\<in>set xs. i < n (snd (sample_1 s))"
    using Suc.IH [OF sample_1_keeps_ok [OF Suc.prems]] by blast
  show ?case
    using i xs sample_1_frame [of s]
    by (cases "sample_1 s"; cases "sample_k_loop k (snd (sample_1 s))") auto
qed

lemma Sampler_init_ok:
  assumes "Sampler_init bits r h a c seed = Inr (h', s)" "h ! a \<noteq> []"
  shows "Sampler_ok s"
  using assms build_tables_shape [of "h ! a"]
  by (auto simp add: Sampler_init_eq Sampler_ok_def split: if_splits)


text \<open>
  The two primitives on their own: a coin with \<open>p = 0\<close> is never heads; the die is the
  floor of \<open>d * faces / (maxi + 1)\<close> whenever the product fits the engine's result type,
  which it always does in 64 bits.
\<close>

lemma coin_of_zero: "\<not> coin_of mx d 0"
  by (simp add: coin_of_def)

lemma coin_toss_zero: "fst (coin_toss s 0) = False"
  by (simp add: coin_toss_def coin_of_zero split: prod.splits)

lemma die_of_exact:
  "d * faces < 2 ^ bits \<Longrightarrow> die_of bits mx d faces = (d * faces) div (mx + 1)"
  by (simp add: die_of_def)

lemma die_of_wide:
  assumes "d \<le> 2147483646" "faces < 2 ^ 31"
  shows "die_of 64 mx d faces = (d * faces) div (mx + 1)"
proof -
  have "d * faces \<le> 2147483646 * faces"
    using assms(1) by simp
  also have "\<dots> < 2147483646 * 2 ^ 31"
    using assms(2) by simp
  also have "\<dots> < (2::nat) ^ 64"
    by simp
  finally show ?thesis
    by (rule die_of_exact)
qed

section \<open>Concrete runs\<close>

text \<open>Rewrite rules that run a draw on a concrete Sampler.\<close>

lemmas sample_eval = sample_1_def fair_die_def coin_toss_def minstd_call_def die_of_def coin_of_def
  unchecked_read_def minstd_modulus_def minstd_multiplier_def

text \<open>The Sampler built from the weights \<open>[1/4, 3/4]\<close> with seed \<open>42\<close>.\<close>

lemma build_tables_quarter:
  "build_tables [1 / 4, 3 / 4] =
     \<lparr>weights = [1 / 4, 1 / 2], l_proba = [1 / 2, 1], l_alias = [1, 0], small = [], large = []\<rparr>"
  by (simp add: build_eval)

lemma Sampler_init_quarter:
  "Sampler_init 64 5 [[1 / 4, 3 / 4]] 0 True (Some 42) =
     Inr ([[1 / 4, 3 / 4], [1 / 4, 1 / 2]],
          \<lparr>n = 2, generator = \<lparr>result_bits = 64, lcg_state = 42\<rparr>, maxi = 2147483646,
           alias_tab = [1, 0], proba = [1 / 2, 1]\<rparr>)"
  by (simp add: Sampler_init_eq build_tables_quarter minstd_rand_seed_def minstd_modulus_def)

lemma Sampler_init_quarter_in_place:
  "Sampler_init 64 9 [[1 / 4, 3 / 4], [2]] 0 False (Some 42) =
     Inr ([[1 / 4, 1 / 2], [2]],
          \<lparr>n = 2, generator = \<lparr>result_bits = 64, lcg_state = 42\<rparr>, maxi = 2147483646,
           alias_tab = [1, 0], proba = [1 / 2, 1]\<rparr>)"
  by (simp add: Sampler_init_eq build_tables_quarter minstd_rand_seed_def minstd_modulus_def)

text \<open>Its first three draws.\<close>

lemma sample_1_quarter_a:
  "sample_1 \<lparr>n = 2, generator = \<lparr>result_bits = 64, lcg_state = 42\<rparr>, maxi = 2147483646,
             alias_tab = [1, 0], proba = [1 / 2, 1]\<rparr> =
     (Inr 1,
      \<lparr>n = 2, generator = \<lparr>result_bits = 64, lcg_state = 1226992407\<rparr>, maxi = 2147483646,
       alias_tab = [1, 0], proba = [1 / 2, 1]\<rparr>)"
  by (simp add: sample_eval)

lemma sample_1_quarter_b:
  "sample_1 \<lparr>n = 2, generator = \<lparr>result_bits = 64, lcg_state = 1226992407\<rparr>, maxi = 2147483646,
             alias_tab = [1, 0], proba = [1 / 2, 1]\<rparr> =
     (Inr 0,
      \<lparr>n = 2, generator = \<lparr>result_bits = 64, lcg_state = 961371815\<rparr>, maxi = 2147483646,
       alias_tab = [1, 0], proba = [1 / 2, 1]\<rparr>)"
  by (simp add: sample_eval)

lemma sample_1_quarter_c:
  "sample_1 \<lparr>n = 2, generator = \<lparr>result_bits = 64, lcg_state = 961371815\<rparr>, maxi = 2147483646,
             alias_tab = [1, 0], proba = [1 / 2, 1]\<rparr> =
     (Inr 1,
      \<lparr>n = 2, generator = \<lparr>result_bits = 64, lcg_state = 2076553157\<rparr>, maxi = 2147483646,
       alias_tab = [1, 0], proba = [1 / 2, 1]\<rparr>)"
  by (simp add: sample_eval)

lemma sample_k_quarter:
  "sample_k \<lparr>n = 2, generator = \<lparr>result_bits = 64, lcg_state = 42\<rparr>, maxi = 2147483646,
             alias_tab = [1, 0], proba = [1 / 2, 1]\<rparr> 3 =
     (Inr [1, 0, 1],
      \<lparr>n = 2, generator = \<lparr>result_bits = 64, lcg_state = 2076553157\<rparr>, maxi = 2147483646,
       alias_tab = [1, 0], proba = [1 / 2, 1]\<rparr>)"
proof -
  have "nat 3 = Suc (Suc (Suc 0))"
    by simp
  then show ?thesis
    unfolding sample_k_def
    by (simp only: sample_k_loop.simps sample_1_quarter_a sample_1_quarter_b sample_1_quarter_c
        prod.case sum.case) simp
qed


lemma sample_1_seed5_a:
  "sample_1 \<lparr>n = 2, generator = \<lparr>result_bits = 64, lcg_state = 5\<rparr>, maxi = 2147483646,
             alias_tab = [1, 0], proba = [1 / 2, 1]\<rparr> =
     (Inr 0,
      \<lparr>n = 2, generator = \<lparr>result_bits = 64, lcg_state = 913028970\<rparr>, maxi = 2147483646,
       alias_tab = [1, 0], proba = [1 / 2, 1]\<rparr>)"
  by (simp add: sample_eval)

lemma sample_1_seed5_b:
  "sample_1 \<lparr>n = 2, generator = \<lparr>result_bits = 64, lcg_state = 913028970\<rparr>, maxi = 2147483646,
             alias_tab = [1, 0], proba = [1 / 2, 1]\<rparr> =
     (Inr 0,
      \<lparr>n = 2, generator = \<lparr>result_bits = 64, lcg_state = 983668597\<rparr>, maxi = 2147483646,
       alias_tab = [1, 0], proba = [1 / 2, 1]\<rparr>)"
  by (simp add: sample_eval)

lemma sample_k_loop_seed5:
  "sample_k_loop (Suc (Suc 0))
     \<lparr>n = 2, generator = \<lparr>result_bits = 64, lcg_state = 5\<rparr>, maxi = 2147483646,
      alias_tab = [1, 0], proba = [1 / 2, 1]\<rparr> =
     (Inr [0, 0],
      \<lparr>n = 2, generator = \<lparr>result_bits = 64, lcg_state = 983668597\<rparr>, maxi = 2147483646,
       alias_tab = [1, 0], proba = [1 / 2, 1]\<rparr>)"
  by (simp only: sample_k_loop.simps sample_1_seed5_a sample_1_seed5_b prod.case sum.case)

lemma sample_k_seed5:
  "sample_k \<lparr>n = 2, generator = \<lparr>result_bits = 64, lcg_state = 5\<rparr>, maxi = 2147483646,
             alias_tab = [1, 0], proba = [1 / 2, 1]\<rparr> 2 =
     (Inr [0, 0],
      \<lparr>n = 2, generator = \<lparr>result_bits = 64, lcg_state = 983668597\<rparr>, maxi = 2147483646,
       alias_tab = [1, 0], proba = [1 / 2, 1]\<rparr>)"
proof -
  have k: "nat 2 = Suc (Suc 0)" "\<not> (2::int) < 0"
    by simp_all
  show ?thesis
    unfolding sample_k_def by (simp only: k if_False sample_k_loop_seed5)
qed






text \<open>Tables of weight vectors whose entries all reach the average \<open>1/n\<close>.\<close>

lemma build_tables_tenths:
  "build_tables [1 / 10, 1 / 10, 1 / 10, 1 / 10, 1 / 10, 1 / 10, 1 / 10, 1 / 10, 1 / 10, 1 / 10] =
     \<lparr>weights = [1 / 10, 1 / 10, 1 / 10, 1 / 10, 1 / 10, 1 / 10, 1 / 10, 1 / 10, 1 / 10, 1 / 10],
      l_proba = [1, 1, 1, 1, 1, 1, 1, 1, 1, 1], l_alias = [0, 0, 0, 0, 0, 0, 0, 0, 0, 0],
      small = [], large = []\<rparr>"
  by (simp add: build_eval)

lemma build_tables_thirds:
  "build_tables [1 / 3, 1 / 3, 1 / 3] =
     \<lparr>weights = [1 / 3, 1 / 3, 1 / 3], l_proba = [1, 1, 1], l_alias = [0, 0, 0],
      small = [], large = []\<rparr>"
  by (simp add: build_eval)

lemma build_tables_one_three:
  "build_tables [1, 3] =
     \<lparr>weights = [1, 3], l_proba = [1, 1], l_alias = [0, 0], small = [], large = []\<rparr>"
  by (simp add: build_eval)

lemma start_locals_quarter:
  "start_locals [1 / 4, 3 / 4] =
     \<lparr>weights = [1 / 4, 3 / 4], l_proba = [0, 0], l_alias = [0, 0], small = [0], large = [1]\<rparr>"
  by (simp add: start_locals_def populate_def classify_def)

lemma paired_quarter:
  "paired [1 / 4, 3 / 4] =
     \<lparr>weights = [1 / 4, 1 / 2], l_proba = [1 / 2, 0], l_alias = [1, 0], small = [], large = [1]\<rparr>"
  unfolding paired_def start_locals_quarter
  by (simp add: pair_loop_stop pair_loop_go pair_step_def Let_def)

section \<open>The claims\<close>

subsection \<open>C1: mass conservation\<close>

text \<open>
  Claim C1 says that for every vector \<open>w\<close> of \<open>n \<ge> 1\<close> non-negative weights with sum
  \<open>W\<close>, the table gives every index \<open>k\<close> the mass \<open>w[k] / W\<close>. The constructor compares
  the weights with \<open>1/n\<close> as they are given; it never divides them by their sum. For
  the weights \<open>[1, 3]\<close> both entries reach the average \<open>1/2\<close>, both probabilities become
  \<open>1\<close>, and each index has mass \<open>1/2\<close>, where the weights ask for \<open>1/4\<close> and \<open>3/4\<close>.
  The class documents that the weights are not required to sum up to \<open>1\<close>. For weights
  that do sum to \<open>1\<close> the mass of every index is exactly its weight
  (\<open>mass_conservation_normalised\<close>).
\<close>

theorem mass_not_conserved_for_unnormalised_weights:
  "Sampler_init 64 5 [[1, 3]] 0 True (Some 42) =
     Inr ([[1, 3], [1, 3]],
          \<lparr>n = 2, generator = \<lparr>result_bits = 64, lcg_state = 42\<rparr>, maxi = 2147483646,
           alias_tab = [0, 0], proba = [1, 1]\<rparr>) \<and>
   draw_mass 2 [1, 1] [0, 0] 0 = 1 / 2 \<and> (1::real) / (1 + 3) = 1 / 4 \<and>
   draw_mass 2 [1, 1] [0, 0] 1 = 1 / 2 \<and> (3::real) / (1 + 3) = 3 / 4"
proof (intro conjI)
  show "Sampler_init 64 5 [[1, 3]] 0 True (Some 42) =
     Inr ([[1, 3], [1, 3]],
          \<lparr>n = 2, generator = \<lparr>result_bits = 64, lcg_state = 42\<rparr>, maxi = 2147483646,
           alias_tab = [0, 0], proba = [1, 1]\<rparr>)"
    by (simp add: Sampler_init_eq build_tables_one_three minstd_rand_seed_def minstd_modulus_def)
  have u: "[0..<2] = [0, Suc 0]"
    by (simp add: numeral_2_eq_2)
  show "draw_mass 2 [1, 1] [0, 0] 0 = 1 / 2"
    by (simp add: draw_mass_def u)
  show "draw_mass 2 [1, 1] [0, 0] 1 = 1 / 2"
    by (simp add: draw_mass_def u)
qed simp_all

subsection \<open>C2: construction and invalid weight vectors\<close>




subsection \<open>C3: the coin at \<open>p = 1\<close>\<close>

text \<open>
  Claim C3 says that \<^verbatim>\<open>coin_toss(1)\<close> is heads for every engine draw. The method
  compares with \<open><\<close> against \<open>maxi * p\<close>, and \<open>maxi\<close> is itself a draw of the engine: from
  the engine state \<open>247665088\<close> the next draw is \<open>2147483646 = maxi\<close>, and the coin with
  \<open>p = 1\<close> is tails. In a Sampler this sends a column whose probability is \<open>1\<close> to its
  alias: built from ten weights \<open>1/10\<close> with seed \<open>1922112213\<close>, the die shows column
  \<open>1\<close>, whose probability is \<open>1\<close> and whose alias was never set, and the draw returns
  \<open>0\<close>. (With \<open>p = 0\<close> the coin is tails for every draw: \<open>coin_toss_zero\<close>.)
\<close>

theorem coin_toss_one_tails_at_max:
  "coin_of 2147483646 2147483646 1 = False \<and>
   coin_toss \<lparr>n = 10, generator = \<lparr>result_bits = 64, lcg_state = 247665088\<rparr>,
              maxi = 2147483646, alias_tab = [0, 0, 0, 0, 0, 0, 0, 0, 0, 0],
              proba = [1, 1, 1, 1, 1, 1, 1, 1, 1, 1]\<rparr> 1 =
     (False,
      \<lparr>n = 10, generator = \<lparr>result_bits = 64, lcg_state = 2147483646\<rparr>,
       maxi = 2147483646, alias_tab = [0, 0, 0, 0, 0, 0, 0, 0, 0, 0],
       proba = [1, 1, 1, 1, 1, 1, 1, 1, 1, 1]\<rparr>) \<and>
   Sampler_init 64 5
       [[1 / 10, 1 / 10, 1 / 10, 1 / 10, 1 / 10, 1 / 10, 1 / 10, 1 / 10, 1 / 10, 1 / 10]] 0 True
       (Some 1922112213) =
     Inr ([[1 / 10, 1 / 10, 1 / 10, 1 / 10, 1 / 10, 1 / 10, 1 / 10, 1 / 10, 1 / 10, 1 / 10],
           [1 / 10, 1 / 10, 1 / 10, 1 / 10, 1 / 10, 1 / 10, 1 / 10, 1 / 10, 1 / 10, 1 / 10]],
          \<lparr>n = 10, generator = \<lparr>result_bits = 64, lcg_state = 1922112213\<rparr>,
           maxi = 2147483646, alias_tab = [0, 0, 0, 0, 0, 0, 0, 0, 0, 0],
           proba = [1, 1, 1, 1, 1, 1, 1, 1, 1, 1]\<rparr>) \<and>
   fair_die \<lparr>n = 10, generator = \<lparr>result_bits = 64, lcg_state = 1922112213\<rparr>,
             maxi = 2147483646, alias_tab = [0, 0, 0, 0, 0, 0, 0, 0, 0, 0],
             proba = [1, 1, 1, 1, 1, 1, 1, 1, 1, 1]\<rparr> 10 =
     (1,
      \<lparr>n = 10, generator = \<lparr>result_bits = 64, lcg_state = 247665088\<rparr>,
       maxi = 2147483646, alias_tab = [0, 0, 0, 0, 0, 0, 0, 0, 0, 0],
       proba = [1, 1, 1, 1, 1, 1, 1, 1, 1, 1]\<rparr>) \<and>
   sample_1 \<lparr>n = 10, generator = \<lparr>result_bits = 64, lcg_state = 1922112213\<rparr>,
             maxi = 2147483646, alias_tab = [0, 0, 0, 0, 0, 0, 0, 0, 0, 0],
             proba = [1, 1, 1, 1, 1, 1, 1, 1, 1, 1]\<rparr> =
     (Inr 0,
      \<lparr>n = 10, generator = \<lparr>result_bits = 64, lcg_state = 2147483646\<rparr>,
       maxi = 2147483646, alias_tab = [0, 0, 0, 0, 0, 0, 0, 0, 0, 0],
       proba = [1, 1, 1, 1, 1, 1, 1, 1, 1, 1]\<rparr>)"
proof (intro conjI)
  show "coin_of 2147483646 2147483646 1 = False"
    by (simp add: coin_of_def)
  show "coin_toss \<lparr>n = 10, generator = \<lparr>result_bits = 64, lcg_state = 247665088\<rparr>,
              maxi = 2147483646, alias_tab = [0, 0, 0, 0, 0, 0, 0, 0, 0, 0],
              proba = [1, 1, 1, 1, 1, 1, 1, 1, 1, 1]\<rparr> 1 =
     (False,
      \<lparr>n = 10, generator = \<lparr>result_bits = 64, lcg_state = 2147483646\<rparr>,
       maxi = 2147483646, alias_tab = [0, 0, 0, 0, 0, 0, 0, 0, 0, 0],
       proba = [1, 1, 1, 1, 1, 1, 1, 1, 1, 1]\<rparr>)"
    by (simp add: sample_eval)
  show "Sampler_init 64 5
       [[1 / 10, 1 / 10, 1 / 10, 1 / 10, 1 / 10, 1 / 10, 1 / 10, 1 / 10, 1 / 10, 1 / 10]] 0 True
       (Some 1922112213) =
     Inr ([[1 / 10, 1 / 10, 1 / 10, 1 / 10, 1 / 10, 1 / 10, 1 / 10, 1 / 10, 1 / 10, 1 / 10],
           [1 / 10, 1 / 10, 1 / 10, 1 / 10, 1 / 10, 1 / 10, 1 / 10, 1 / 10, 1 / 10, 1 / 10]],
          \<lparr>n = 10, generator = \<lparr>result_bits = 64, lcg_state = 1922112213\<rparr>,
           maxi = 2147483646, alias_tab = [0, 0, 0, 0, 0, 0, 0, 0, 0, 0],
           proba = [1, 1, 1, 1, 1, 1, 1, 1, 1, 1]\<rparr>)"
    by (simp add: Sampler_init_eq build_tables_tenths minstd_rand_seed_def minstd_modulus_def)
  show "fair_die \<lparr>n = 10, generator = \<lparr>result_bits = 64, lcg_state = 1922112213\<rparr>,
             maxi = 2147483646, alias_tab = [0, 0, 0, 0, 0, 0, 0, 0, 0, 0],
             proba = [1, 1, 1, 1, 1, 1, 1, 1, 1, 1]\<rparr> 10 =
     (1,
      \<lparr>n = 10, generator = \<lparr>result_bits = 64, lcg_state = 247665088\<rparr>,
       maxi = 2147483646, alias_tab = [0, 0, 0, 0, 0, 0, 0, 0, 0, 0],
       proba = [1, 1, 1, 1, 1, 1, 1, 1, 1, 1]\<rparr>)"
    by (simp add: sample_eval)
  show "sample_1 \<lparr>n = 10, generator = \<lparr>result_bits = 64, lcg_state = 1922112213\<rparr>,
             maxi = 2147483646, alias_tab = [0, 0, 0, 0, 0, 0, 0, 0, 0, 0],
             proba = [1, 1, 1, 1, 1, 1, 1, 1, 1, 1]\<rparr> =
     (Inr 0,
      \<lparr>n = 10, generator = \<lparr>result_bits = 64, lcg_state = 2147483646\<rparr>,
       maxi = 2147483646, alias_tab = [0, 0, 0, 0, 0, 0, 0, 0, 0, 0],
       proba = [1, 1, 1, 1, 1, 1, 1, 1, 1, 1]\<rparr>)"
    by (simp add: sample_eval)
qed

subsection \<open>C4: the die and the width of its product\<close>

text \<open>
  Claim C4 says that \<^verbatim>\<open>fair_die(n)\<close> returns the floor of \<open>draw * n / (MAX + 1)\<close> for
  every \<open>n \<ge> 1\<close> and every draw, the product never overflowing. The product is formed
  in the engine's result type. Where that type has 32 bits, the draw \<open>2147483646\<close> times
  \<open>3\<close> wraps and the die shows \<open>0\<close>, where the floor is \<open>2\<close>; in 64 bits the same draw
  shows \<open>2\<close> (and no product of a draw and a C \<^verbatim>\<open>int\<close> wraps: \<open>die_of_wide\<close>). The result
  stays below \<open>n\<close> in every width (\<open>die_of_less\<close>).
\<close>

theorem fair_die_wraps_in_32_bits:
  "die_of 32 2147483646 2147483646 3 = 0 \<and>
   (2147483646 * 3) div (2147483646 + 1) = (2::nat) \<and>
   die_of 64 2147483646 2147483646 3 = 2 \<and>
   Sampler_init 32 5 [[1 / 3, 1 / 3, 1 / 3]] 0 True (Some 247665088) =
     Inr ([[1 / 3, 1 / 3, 1 / 3], [1 / 3, 1 / 3, 1 / 3]],
          \<lparr>n = 3, generator = \<lparr>result_bits = 32, lcg_state = 247665088\<rparr>,
           maxi = 2147483646, alias_tab = [0, 0, 0], proba = [1, 1, 1]\<rparr>) \<and>
   fair_die \<lparr>n = 3, generator = \<lparr>result_bits = 32, lcg_state = 247665088\<rparr>,
             maxi = 2147483646, alias_tab = [0, 0, 0], proba = [1, 1, 1]\<rparr> 3 =
     (0,
      \<lparr>n = 3, generator = \<lparr>result_bits = 32, lcg_state = 2147483646\<rparr>,
       maxi = 2147483646, alias_tab = [0, 0, 0], proba = [1, 1, 1]\<rparr>)"
proof (intro conjI)
  show "die_of 32 2147483646 2147483646 3 = 0"
    by (simp add: die_of_def)
  show "(2147483646 * 3) div (2147483646 + 1) = (2::nat)"
    by simp
  show "die_of 64 2147483646 2147483646 3 = 2"
    by (simp add: die_of_def)
  show "Sampler_init 32 5 [[1 / 3, 1 / 3, 1 / 3]] 0 True (Some 247665088) =
     Inr ([[1 / 3, 1 / 3, 1 / 3], [1 / 3, 1 / 3, 1 / 3]],
          \<lparr>n = 3, generator = \<lparr>result_bits = 32, lcg_state = 247665088\<rparr>,
           maxi = 2147483646, alias_tab = [0, 0, 0], proba = [1, 1, 1]\<rparr>)"
    by (simp add: Sampler_init_eq build_tables_thirds minstd_rand_seed_def minstd_modulus_def)
  show "fair_die \<lparr>n = 3, generator = \<lparr>result_bits = 32, lcg_state = 247665088\<rparr>,
             maxi = 2147483646, alias_tab = [0, 0, 0], proba = [1, 1, 1]\<rparr> 3 =
     (0,
      \<lparr>n = 3, generator = \<lparr>result_bits = 32, lcg_state = 2147483646\<rparr>,
       maxi = 2147483646, alias_tab = [0, 0, 0], proba = [1, 1, 1]\<rparr>)"
    by (simp add: sample_eval)
qed

subsection \<open>C5: gathering values from a buffer shorter than \<open>n\<close>\<close>




subsection \<open>C6: the construction follows the worklist algorithm\<close>

text \<open>
  Claim C6: from the state the constructor starts in, the state its pairing loop ends
  in is reached by iterations of the specification's step 3, each taken while both
  worklists are non-empty, and the loop stops with one worklist empty; the probability
  array the constructor returns is then the loop's array with \<open>1\<close> at every index
  remaining in either worklist. The alias array and the weights are the loop's.
\<close>

theorem construction_follows_worklist_algorithm:
  "spec_pairing (length w) (1 / real (length w)) (start_locals w) (paired w) \<and>
   (small (paired w) = [] \<or> large (paired w) = []) \<and>
   spec_drained (paired w) (l_proba (build_tables w)) \<and>
   l_alias (build_tables w) = l_alias (paired w) \<and>
   weights (build_tables w) = weights (paired w)"
proof -
  have "spec_pairing (length w) (1 / real (length w)) (start_locals w) (paired w)"
    unfolding paired_def by (rule pair_loop_is_spec_pairing)
  moreover have "small (paired w) = [] \<or> large (paired w) = []"
    unfolding paired_def by (rule pair_loop_exit)
  moreover have "spec_drained (paired w) (l_proba (build_tables w))"
    by (auto simp add: spec_drained_def build_tables_paired length_drain drain_nth)
  ultimately show ?thesis
    by (simp add: build_tables_paired)
qed

text \<open>
  The theorem at the weights \<open>[1/4, 3/4]\<close>: one iteration pairs index \<open>0\<close> with index
  \<open>1\<close>, which goes back to \<open>large\<close> with weight \<open>1/2\<close> and is drained to probability
  \<open>1\<close>.
\<close>

theorem construction_follows_worklist_algorithm_witness:
  "spec_pairing 2 (1 / 2)
     \<lparr>weights = [1 / 4, 3 / 4], l_proba = [0, 0], l_alias = [0, 0], small = [0], large = [1]\<rparr>
     \<lparr>weights = [1 / 4, 1 / 2], l_proba = [1 / 2, 0], l_alias = [1, 0], small = [], large = [1]\<rparr> \<and>
   spec_drained
     \<lparr>weights = [1 / 4, 1 / 2], l_proba = [1 / 2, 0], l_alias = [1, 0], small = [], large = [1]\<rparr>
     [1 / 2, 1] \<and>
   l_proba (build_tables [1 / 4, 3 / 4]) = [1 / 2, 1] \<and>
   l_alias (build_tables [1 / 4, 3 / 4]) = [1, 0]"
proof -
  have ev: "length [1 / 4, 3 / 4 :: real] = 2" "1 / real (2::nat) = 1 / 2"
    by simp_all
  have t: "l_proba (build_tables [1 / 4, 3 / 4]) = [1 / 2, 1]"
      "l_alias (build_tables [1 / 4, 3 / 4]) = [1, 0]"
    by (simp_all add: build_tables_quarter)
  show ?thesis
    using construction_follows_worklist_algorithm [of "[1 / 4, 3 / 4]"]
    unfolding ev start_locals_quarter paired_quarter t
    by simp
qed

subsection \<open>C7: a single draw\<close>

text \<open>
  Claim C7: for every Sampler constructed from at least one weight, and whatever state
  \<open>g\<close> its engine is in, \<^verbatim>\<open>sample_1\<close> draws \<open>col = fair_die(n)\<close>, then draws
  \<open>heads = coin_toss(probability[col])\<close> from the engine as the die left it, returns
  \<open>col\<close> if heads and \<open>alias[col]\<close> otherwise, and either index lies in \<open>[0, n)\<close>. The
  call raises nothing.
\<close>

theorem sample_1_column_or_alias:
  assumes "Sampler_init bits r h a c seed = Inr (h', s)" and "h ! a \<noteq> []"
  shows "case fair_die (s\<lparr>generator := g\<rparr>) (n s) of
           (col, s1) \<Rightarrow>
             (case coin_toss s1 (proba s ! col) of
                (heads, s2) \<Rightarrow>
                  sample_1 (s\<lparr>generator := g\<rparr>) = (Inr (if heads then col else alias_tab s ! col), s2) \<and>
                  col < n s \<and> alias_tab s ! col < n s)"
proof -
  let ?t = "s\<lparr>generator := g\<rparr>"
  have ok: "Sampler_ok ?t"
    using Sampler_init_ok [OF assms] by (simp add: Sampler_ok_def)
  obtain col s1 where f: "fair_die ?t (n s) = (col, s1)"
    by (cases "fair_die ?t (n s)")
  have col: "col < n s"
    using fair_die_less [OF ok] f by simp
  then have al: "alias_tab s ! col < n s"
    using ok by (simp add: Sampler_ok_def)
  show ?thesis
    using sample_1_ok [OF ok] col al by (simp add: f split: prod.splits)
qed

text \<open>
  The theorem at the Sampler built from \<open>[1/4, 3/4]\<close> with seed \<open>42\<close>: the die shows column
  \<open>0\<close>, the coin is tails, the draw returns the alias \<open>1\<close>.
\<close>

theorem sample_1_column_or_alias_witness:
  "Sampler_init 64 5 [[1 / 4, 3 / 4]] 0 True (Some 42) =
     Inr ([[1 / 4, 3 / 4], [1 / 4, 1 / 2]],
          \<lparr>n = 2, generator = \<lparr>result_bits = 64, lcg_state = 42\<rparr>, maxi = 2147483646,
           alias_tab = [1, 0], proba = [1 / 2, 1]\<rparr>) \<and>
   [[1 / 4, 3 / 4 :: real]] ! 0 \<noteq> [] \<and>
   sample_1 \<lparr>n = 2, generator = \<lparr>result_bits = 64, lcg_state = 42\<rparr>, maxi = 2147483646,
             alias_tab = [1, 0], proba = [1 / 2, 1]\<rparr> =
     (Inr 1, \<lparr>n = 2, generator = \<lparr>result_bits = 64, lcg_state = 1226992407\<rparr>,
              maxi = 2147483646, alias_tab = [1, 0], proba = [1 / 2, 1]\<rparr>)"
proof -
  have ne: "[[1 / 4, 3 / 4 :: real]] ! 0 \<noteq> []"
    by simp
  show ?thesis
    using sample_1_column_or_alias [OF Sampler_init_quarter ne,
        of "\<lparr>result_bits = 64, lcg_state = 42\<rparr>"]
    by (simp add: Sampler_init_quarter fair_die_def coin_toss_def minstd_call_def die_of_def
        coin_of_def minstd_modulus_def minstd_multiplier_def)
qed

subsection \<open>C8: the tables after construction\<close>

text \<open>
  Claim C8: after construction from \<open>n \<ge> 1\<close> non-negative weights, both tables have \<open>n\<close>
  entries, every probability lies in \<open>[0, 1]\<close> and every alias is an index in \<open>[0, n)\<close>.
  No sampling operation writes to the tables: whatever Sampler \<open>t\<close> it is called on (the
  constructed one, or any state it has reached), \<^verbatim>\<open>sample_1\<close>, \<^verbatim>\<open>sample_k\<close>,
  \<^verbatim>\<open>sample_k_from\<close> and \<^verbatim>\<open>sample\<close> leave \<open>t\<close> with the same two arrays, also when they
  raise.
\<close>

theorem tables_in_range_and_read_only:
  assumes "Sampler_init bits r h a c seed = Inr (h', s)"
    and "h ! a \<noteq> []"
    and "\<forall>w\<in>set (h ! a). 0 \<le> w"
  shows "length (proba s) = n s \<and> length (alias_tab s) = n s \<and>
         (\<forall>p\<in>set (proba s). 0 \<le> p \<and> p \<le> 1) \<and>
         (\<forall>j\<in>set (alias_tab s). j < n s) \<and>
         proba (snd (sample_1 t)) = proba t \<and> alias_tab (snd (sample_1 t)) = alias_tab t \<and>
         proba (snd (sample_k t k)) = proba t \<and> alias_tab (snd (sample_k t k)) = alias_tab t \<and>
         proba (snd (sample_k_from t k vs)) = proba t \<and>
         alias_tab (snd (sample_k_from t k vs)) = alias_tab t \<and>
         proba (snd (sample t k vals)) = proba t \<and> alias_tab (snd (sample t k vals)) = alias_tab t"
proof -
  have s: "n s = length (h ! a)" "proba s = l_proba (build_tables (h ! a))"
      "alias_tab s = l_alias (build_tables (h ! a))"
    using assms(1) by (auto simp add: Sampler_init_eq split: if_splits)
  have len: "length (proba s) = n s" "length (alias_tab s) = n s"
    using build_tables_shape [of "h ! a"] by (simp_all add: s)
  have "\<forall>i<length (proba s). 0 \<le> proba s ! i \<and> proba s ! i \<le> 1"
    using build_tables_proba_range [OF assms(3)] len by (simp add: s)
  then have pr: "\<forall>p\<in>set (proba s). 0 \<le> p \<and> p \<le> 1"
    by (metis in_set_conv_nth)
  have "\<forall>i<length (alias_tab s). alias_tab s ! i < n s"
    using build_tables_shape [of "h ! a"] by (simp add: s)
  then have al: "\<forall>j\<in>set (alias_tab s). j < n s"
    by (metis in_set_conv_nth)
  have k: "proba (snd (sample_k t k)) = proba t \<and> alias_tab (snd (sample_k t k)) = alias_tab t"
    using sample_k_loop_frame [of "nat k" t] by (simp add: sample_k_def)
  have kf: "proba (snd (sample_k_from t k vs)) = proba t \<and>
            alias_tab (snd (sample_k_from t k vs)) = alias_tab t"
    using sample_k_from_loop_frame [of "nat k" vs t] by (simp add: sample_k_from_def)
  show ?thesis
    using len pr al k kf sample_1_frame [of t] sample_frame [of t k vals] by simp
qed

text \<open>
  The theorem at the weights \<open>[1/4, 3/4]\<close>: the probabilities are \<open>1/2\<close> and \<open>1\<close>, the
  aliases \<open>1\<close> and \<open>0\<close>, and three draws leave both arrays as they were.
\<close>

theorem tables_in_range_and_read_only_witness:
  "Sampler_init 64 5 [[1 / 4, 3 / 4]] 0 True (Some 42) =
     Inr ([[1 / 4, 3 / 4], [1 / 4, 1 / 2]],
          \<lparr>n = 2, generator = \<lparr>result_bits = 64, lcg_state = 42\<rparr>, maxi = 2147483646,
           alias_tab = [1, 0], proba = [1 / 2, 1]\<rparr>) \<and>
   [[1 / 4, 3 / 4 :: real]] ! 0 \<noteq> [] \<and> (0::real) \<le> 1 / 4 \<and> (0::real) \<le> 3 / 4 \<and>
   (0::real) \<le> 1 / 2 \<and> (1::real) / 2 \<le> 1 \<and> (1::nat) < 2 \<and>
   proba (snd (sample \<lparr>n = 2, generator = \<lparr>result_bits = 64, lcg_state = 42\<rparr>,
                       maxi = 2147483646, alias_tab = [1, 0], proba = [1 / 2, 1]\<rparr> 3 None)) =
     [1 / 2, 1] \<and>
   alias_tab (snd (sample \<lparr>n = 2, generator = \<lparr>result_bits = 64, lcg_state = 42\<rparr>,
                       maxi = 2147483646, alias_tab = [1, 0], proba = [1 / 2, 1]\<rparr> 3 None)) =
     [1, 0]"
proof -
  have ne: "[[1 / 4, 3 / 4 :: real]] ! 0 \<noteq> []"
    by simp
  have nn: "\<forall>w\<in>set ([[1 / 4, 3 / 4 :: real]] ! 0). 0 \<le> w"
    by simp
  show ?thesis
    using tables_in_range_and_read_only [OF Sampler_init_quarter ne nn,
        of "\<lparr>n = 2, generator = \<lparr>result_bits = 64, lcg_state = 42\<rparr>, maxi = 2147483646,
             alias_tab = [1, 0], proba = [1 / 2, 1]\<rparr>" 3 _ None]
    by (simp add: Sampler_init_quarter)
qed

subsection \<open>C9: the same seed gives the same samples\<close>

text \<open>
  Claim C9: two Samplers constructed from the same weights with the same explicit seed
  are the same object (whatever the \<^verbatim>\<open>random_device\<close> would have returned, whichever
  buffers hold the weights and whether they are copied), so for every \<open>k\<close> the two give
  the same sequence of \<open>k\<close> indices and are left in the same state. For at least one
  weight and \<open>k \<ge> 0\<close> the sequence exists: \<open>k\<close> indices below \<open>n\<close>, and no error.
\<close>

theorem same_seed_same_samples:
  assumes "Sampler_init bits r1 h1 a1 c1 (Some sd) = Inr (h1', s1)"
    and "Sampler_init bits r2 h2 a2 c2 (Some sd) = Inr (h2', s2)"
    and "h1 ! a1 = h2 ! a2"
  shows "s1 = s2 \<and> sample_k s1 k = sample_k s2 k \<and> sample s1 k None = sample s2 k None \<and>
         (h1 ! a1 \<noteq> [] \<and> 0 \<le> k \<longrightarrow>
            (\<exists>xs. fst (sample_k s1 k) = Inr xs \<and> int (length xs) = k \<and> (\<forall>i\<in>set xs. i < n s1)))"
proof -
  have eq: "s1 = s2"
    using assms by (auto simp add: Sampler_init_eq split: if_splits)
  have "\<exists>xs. fst (sample_k s1 k) = Inr xs \<and> int (length xs) = k \<and> (\<forall>i\<in>set xs. i < n s1)"
    if "h1 ! a1 \<noteq> []" "0 \<le> k"
  proof -
    have "Sampler_ok s1"
      using Sampler_init_ok [OF assms(1) that(1)] .
    then obtain xs where "fst (sample_k_loop (nat k) s1) = Inr xs" "length xs = nat k"
        "\<forall>i\<in>set xs. i < n s1"
      using sample_k_loop_total by blast
    then show ?thesis
      using that(2) by (auto simp add: sample_k_def)
  qed
  then show ?thesis
    using eq by blast
qed

text \<open>
  The theorem at the weights \<open>[1/4, 3/4]\<close> and seed \<open>42\<close>, once copied and once in place
  with another entropy value: both Samplers draw \<open>1, 0, 1\<close>.
\<close>

theorem same_seed_same_samples_witness:
  "Sampler_init 64 5 [[1 / 4, 3 / 4]] 0 True (Some 42) =
     Inr ([[1 / 4, 3 / 4], [1 / 4, 1 / 2]],
          \<lparr>n = 2, generator = \<lparr>result_bits = 64, lcg_state = 42\<rparr>, maxi = 2147483646,
           alias_tab = [1, 0], proba = [1 / 2, 1]\<rparr>) \<and>
   Sampler_init 64 9 [[1 / 4, 3 / 4], [2]] 0 False (Some 42) =
     Inr ([[1 / 4, 1 / 2], [2]],
          \<lparr>n = 2, generator = \<lparr>result_bits = 64, lcg_state = 42\<rparr>, maxi = 2147483646,
           alias_tab = [1, 0], proba = [1 / 2, 1]\<rparr>) \<and>
   [[1 / 4, 3 / 4 :: real]] ! 0 = [[1 / 4, 3 / 4], [2]] ! 0 \<and>
   (\<exists>xs. fst (sample_k \<lparr>n = 2, generator = \<lparr>result_bits = 64, lcg_state = 42\<rparr>,
                        maxi = 2147483646, alias_tab = [1, 0], proba = [1 / 2, 1]\<rparr> 3) = Inr xs \<and>
         int (length xs) = 3) \<and>
   fst (sample_k \<lparr>n = 2, generator = \<lparr>result_bits = 64, lcg_state = 42\<rparr>, maxi = 2147483646,
                  alias_tab = [1, 0], proba = [1 / 2, 1]\<rparr> 3) = Inr [1, 0, 1]"
proof -
  have same: "[[1 / 4, 3 / 4 :: real]] ! 0 = [[1 / 4, 3 / 4], [2]] ! 0"
    by simp
  have run: "fst (sample_k \<lparr>n = 2, generator = \<lparr>result_bits = 64, lcg_state = 42\<rparr>,
                  maxi = 2147483646, alias_tab = [1, 0], proba = [1 / 2, 1]\<rparr> 3) = Inr [1, 0, 1]"
    by (simp only: sample_k_quarter fst_conv)
  have ex: "\<exists>xs. fst (sample_k \<lparr>n = 2, generator = \<lparr>result_bits = 64, lcg_state = 42\<rparr>,
                        maxi = 2147483646, alias_tab = [1, 0], proba = [1 / 2, 1]\<rparr> 3) = Inr xs \<and>
         int (length xs) = 3"
    using same_seed_same_samples
      [OF Sampler_init_quarter Sampler_init_quarter_in_place same, of 3]
    by auto
  show ?thesis
    by (intro conjI, rule Sampler_init_quarter, rule Sampler_init_quarter_in_place,
        rule same, rule ex, rule run)
qed

subsection \<open>C10: the copy flag\<close>

text \<open>
  Claim C10: with \<^verbatim>\<open>copy=True\<close> the constructor works on a fresh buffer, which ends up
  holding the weights as the pairing loop left them, and every buffer that existed
  before, the caller's included, is unchanged. With \<^verbatim>\<open>copy=False\<close> no buffer is
  allocated and the caller's buffer itself ends up holding the weights as the loop left
  them. The Sampler is the same in both cases.
\<close>

theorem copy_keeps_callers_buffer:
  assumes "a < length h"
    and "Sampler_init bits r h a True seed = Inr (h1, s1)"
    and "Sampler_init bits r h a False seed = Inr (h2, s2)"
  shows "h1 ! a = h ! a \<and> take (length h) h1 = h \<and>
         h1 ! length h = weights (build_tables (h ! a)) \<and>
         h2 ! a = weights (build_tables (h ! a)) \<and>
         h2 = h[a := weights (build_tables (h ! a))] \<and> s1 = s2"
  using assms by (auto simp add: Sampler_init_eq nth_append split: if_splits)

text \<open>
  The theorem at the weights \<open>[1/4, 3/4]\<close>: the loop turns them into \<open>[1/4, 1/2]\<close>, in
  the copy when one is made and in the caller's buffer otherwise.
\<close>

theorem copy_keeps_callers_buffer_witness:
  "(0::nat) < length [[1 / 4, 3 / 4 :: real]] \<and>
   Sampler_init 64 5 [[1 / 4, 3 / 4]] 0 True (Some 42) =
     Inr ([[1 / 4, 3 / 4], [1 / 4, 1 / 2]],
          \<lparr>n = 2, generator = \<lparr>result_bits = 64, lcg_state = 42\<rparr>, maxi = 2147483646,
           alias_tab = [1, 0], proba = [1 / 2, 1]\<rparr>) \<and>
   Sampler_init 64 5 [[1 / 4, 3 / 4]] 0 False (Some 42) =
     Inr ([[1 / 4, 1 / 2]],
          \<lparr>n = 2, generator = \<lparr>result_bits = 64, lcg_state = 42\<rparr>, maxi = 2147483646,
           alias_tab = [1, 0], proba = [1 / 2, 1]\<rparr>) \<and>
   weights (build_tables [1 / 4, 3 / 4]) = [1 / 4, 1 / 2]"
proof -
  have len: "(0::nat) < length [[1 / 4, 3 / 4 :: real]]"
    by simp
  have inplace: "Sampler_init 64 5 [[1 / 4, 3 / 4]] 0 False (Some 42) =
     Inr ([[1 / 4, 1 / 2]],
          \<lparr>n = 2, generator = \<lparr>result_bits = 64, lcg_state = 42\<rparr>, maxi = 2147483646,
           alias_tab = [1, 0], proba = [1 / 2, 1]\<rparr>)"
    by (simp add: Sampler_init_eq build_tables_quarter minstd_rand_seed_def minstd_modulus_def)
  show ?thesis
    using copy_keeps_callers_buffer [OF len Sampler_init_quarter inplace]
    by (simp add: Sampler_init_quarter inplace)
qed

end
